theory Spec2Isabelle
  imports Main
begin

text \<open>
  The authentication hook \<^verbatim>\<open>useAuth\<close> (hooks/useAuth.ts) of the vehicle health
  monitoring app: a mock registration and login API over the key-value storage of the
  device, and the five operations of the hook (restoring the session, signing up, signing
  in, signing out, updating the profile) as functions from the state before to the outcome
  and the state after.
\<close>

section \<open>Strings\<close>

text \<open>
  The hook works on JavaScript strings. They are modelled as \<^typ>\<open>string\<close>, a character
  being one code unit in the range U+0000 .. U+00FF. On that range \<^verbatim>\<open>trim\<close> and
  \<^verbatim>\<open>toLowerCase\<close> are closed operations: the white space and line terminator code
  units are 09 .. 0D, 20 and A0, and the code units with a lower-case mapping are
  A .. Z and C0 .. DE except D7 (the multiplication sign), each mapped 32 places up.
\<close>

definition isWhiteSpace :: "char \<Rightarrow> bool" where
  "isWhiteSpace c \<longleftrightarrow>
     c \<in> set [CHR 0x09, CHR 0x0A, CHR 0x0B, CHR 0x0C, CHR 0x0D, CHR 0x20, CHR 0xA0]"

definition trim :: "string \<Rightarrow> string" where
  "trim s = rev (dropWhile isWhiteSpace (rev (dropWhile isWhiteSpace s)))"

definition lower_char :: "char \<Rightarrow> char" where
  "lower_char c =
     (let n = (of_char c :: nat)
      in if (65 \<le> n \<and> n \<le> 90) \<or> (192 \<le> n \<and> n \<le> 222 \<and> n \<noteq> 215)
         then char_of (n + 32) else c)"

definition toLowerCase :: "string \<Rightarrow> string" where
  "toLowerCase s = map lower_char s"

text \<open>\<^verbatim>\<open>s.includes(c)\<close> for a one-character needle.\<close>

definition String_includes :: "string \<Rightarrow> char \<Rightarrow> bool" where
  "String_includes s c \<longleftrightarrow> c \<in> set s"

text \<open>
  \<^verbatim>\<open>Date.now().toString()\<close>: the clock reading is a natural number of milliseconds,
  printed in decimal.
\<close>

function Number_toString :: "nat \<Rightarrow> string" where
  "Number_toString n =
     (if n < 10 then [char_of (48 + n)]
      else Number_toString (n div 10) @ [char_of (48 + n mod 10)])"
  by pat_completeness auto
termination
  by (relation "measure (\<lambda>n. n)") auto

declare Number_toString.simps [simp del]

section \<open>User records\<close>

text \<open>
  \<^verbatim>\<open>interface User { id: string; name: string; email: string; createdAt?: string }\<close>
  and \<^verbatim>\<open>Partial<User>\<close>, every field of which may be left out. A field that is given
  holds a string, as the interface says.
\<close>

record User =
  id' :: string
  name :: string
  email :: string
  createdAt :: "string option"

record PartialUser =
  id_opt :: "string option"
  name_opt :: "string option"
  email_opt :: "string option"
  createdAt_opt :: "string option"

text \<open>The object spread \<^verbatim>\<open>{ ...user, ...userData }\<close>: a given field overrides.\<close>

definition spread :: "User \<Rightarrow> PartialUser \<Rightarrow> User" where
  "spread u userData =
     \<lparr>id' = (case id_opt userData of None \<Rightarrow> id' u | Some v \<Rightarrow> v),
      name = (case name_opt userData of None \<Rightarrow> name u | Some v \<Rightarrow> v),
      email = (case email_opt userData of None \<Rightarrow> email u | Some v \<Rightarrow> v),
      createdAt = (case createdAt_opt userData of None \<Rightarrow> createdAt u | Some v \<Rightarrow> Some v)\<rparr>"

section \<open>JSON text\<close>

subsection \<open>Writing\<close>

text \<open>
  \<^verbatim>\<open>JSON.stringify\<close> on a string: quotation mark and reverse solidus are escaped, the
  control characters get their short escape where there is one and a four-digit lower-case
  hexadecimal escape otherwise; every other code unit is written as it is.
\<close>

definition hex_digit :: "nat \<Rightarrow> char" where
  "hex_digit n = (if n < 10 then char_of (48 + n) else char_of (87 + n))"

definition quote_char :: "char \<Rightarrow> string" where
  "quote_char c =
     (if c = CHR 0x08 then [CHR 0x5C, CHR ''b'']
      else if c = CHR 0x09 then [CHR 0x5C, CHR ''t'']
      else if c = CHR 0x0A then [CHR 0x5C, CHR ''n'']
      else if c = CHR 0x0C then [CHR 0x5C, CHR ''f'']
      else if c = CHR 0x0D then [CHR 0x5C, CHR ''r'']
      else if c = CHR 0x22 then [CHR 0x5C, CHR 0x22]
      else if c = CHR 0x5C then [CHR 0x5C, CHR 0x5C]
      else if (of_char c :: nat) < 32
        then [CHR 0x5C, CHR ''u'', CHR ''0'', CHR ''0'',
              hex_digit ((of_char c :: nat) div 16), hex_digit ((of_char c :: nat) mod 16)]
      else [c])"

definition QuoteJSONString :: "string \<Rightarrow> string" where
  "QuoteJSONString s = CHR 0x22 # concat (map quote_char s) @ [CHR 0x22]"

text \<open>
  \<^verbatim>\<open>JSON.stringify\<close> on a user record: the keys in the order of the object literal of
  \<^verbatim>\<open>mockApi.register\<close>, which the spread of \<^verbatim>\<open>updateUser\<close> keeps, a missing
  \<^verbatim>\<open>createdAt\<close> left out; on a list of them: the elements separated by commas, in
  brackets. (A record stands for its object whatever the order of the keys; an object read
  from a text with the keys in another order is written back in that order, and read again
  as the same record.)
\<close>

definition JSON_stringify_user :: "User \<Rightarrow> string" where
  "JSON_stringify_user u =
     ''{'' @ QuoteJSONString ''id'' @ '':'' @ QuoteJSONString (id' u)
     @ '','' @ QuoteJSONString ''name'' @ '':'' @ QuoteJSONString (name u)
     @ '','' @ QuoteJSONString ''email'' @ '':'' @ QuoteJSONString (email u)
     @ (case createdAt u of
          None \<Rightarrow> []
        | Some t \<Rightarrow> '','' @ QuoteJSONString ''createdAt'' @ '':'' @ QuoteJSONString t)
     @ ''}''"

fun join_comma :: "string list \<Rightarrow> string" where
  "join_comma [] = []"
| "join_comma [x] = x"
| "join_comma (x # y # ys) = x @ '','' @ join_comma (y # ys)"

definition JSON_stringify_users :: "User list \<Rightarrow> string" where
  "JSON_stringify_users us = ''['' @ join_comma (map JSON_stringify_user us) @ '']''"

subsection \<open>Reading\<close>

text \<open>
  \<^verbatim>\<open>JSON.parse\<close>, on the texts the two storage slots are typed to hold: an object whose
  members are strings, or an array of such objects. White space between tokens, members in
  any order, repeated keys (the last one wins) and every escape of the JSON grammar are
  read. A text outside the JSON grammar makes \<^verbatim>\<open>JSON.parse\<close> throw. A text that is
  JSON but not of the type \<^verbatim>\<open>User\<close>, or \<^verbatim>\<open>User[]\<close> for the list (another key, a
  missing \<^verbatim>\<open>id\<close>, \<^verbatim>\<open>name\<close> or \<^verbatim>\<open>email\<close>, a member that is not a string, an
  escape above U+00FF), is outside this model, whose records cannot hold such a value; the
  functions below answer \<open>None\<close> on it as well, and what is proved of a stored text is
  proved under the assumption that it is read as a record or a list of records.
\<close>

definition hex_value :: "char \<Rightarrow> nat option" where
  "hex_value c =
     (let n = (of_char c :: nat)
      in if 48 \<le> n \<and> n \<le> 57 then Some (n - 48)
         else if 97 \<le> n \<and> n \<le> 102 then Some (n - 87)
         else if 65 \<le> n \<and> n \<le> 70 then Some (n - 55)
         else None)"

definition hex4 :: "char \<Rightarrow> char \<Rightarrow> char \<Rightarrow> char \<Rightarrow> nat option" where
  "hex4 a b c d =
     (case (hex_value a, hex_value b, hex_value c, hex_value d) of
        (Some h3, Some h2, Some h1, Some h0) \<Rightarrow> Some (((h3 * 16 + h2) * 16 + h1) * 16 + h0)
      | _ \<Rightarrow> None)"

definition unescape :: "char \<Rightarrow> char option" where
  "unescape e =
     (if e = CHR 0x22 then Some (CHR 0x22)
      else if e = CHR 0x5C then Some (CHR 0x5C)
      else if e = CHR ''/'' then Some (CHR ''/'')
      else if e = CHR ''b'' then Some (CHR 0x08)
      else if e = CHR ''f'' then Some (CHR 0x0C)
      else if e = CHR ''n'' then Some (CHR 0x0A)
      else if e = CHR ''r'' then Some (CHR 0x0D)
      else if e = CHR ''t'' then Some (CHR 0x09)
      else None)"

text \<open>The characters of a string literal after its opening quotation mark, and the rest.\<close>

fun parse_chars :: "string \<Rightarrow> (string \<times> string) option" where
  "parse_chars [] = None"
| "parse_chars (c # cs) =
     (if c = CHR 0x22 then Some ([], cs)
      else if c = CHR 0x5C then
        (case cs of
           [] \<Rightarrow> None
         | e # r \<Rightarrow>
             if e = CHR ''u'' then
               (case r of
                  a # b # c' # d # r' \<Rightarrow>
                    (case hex4 a b c' d of
                       None \<Rightarrow> None
                     | Some n \<Rightarrow>
                         if n < 256
                         then map_option (\<lambda>(s, t). (char_of n # s, t)) (parse_chars r')
                         else None)
                | _ \<Rightarrow> None)
             else
               (case unescape e of
                  None \<Rightarrow> None
                | Some x \<Rightarrow> map_option (\<lambda>(s, t). (x # s, t)) (parse_chars r)))
      else if (of_char c :: nat) < 32 then None
      else map_option (\<lambda>(s, t). (c # s, t)) (parse_chars cs))"

definition is_json_ws :: "char \<Rightarrow> bool" where
  "is_json_ws c \<longleftrightarrow> c \<in> set [CHR 0x09, CHR 0x0A, CHR 0x0D, CHR 0x20]"

definition skip_ws :: "string \<Rightarrow> string" where
  "skip_ws s = dropWhile is_json_ws s"

definition parse_string :: "string \<Rightarrow> (string \<times> string) option" where
  "parse_string s =
     (case s of [] \<Rightarrow> None | c # cs \<Rightarrow> if c = CHR 0x22 then parse_chars cs else None)"

definition parse_member :: "string \<Rightarrow> ((string \<times> string) \<times> string) option" where
  "parse_member s =
     (case parse_string s of
        None \<Rightarrow> None
      | Some (k, r) \<Rightarrow>
          (case skip_ws r of
             [] \<Rightarrow> None
           | c # r1 \<Rightarrow>
               if c = CHR '':'' then
                 (case parse_string (skip_ws r1) of
                    None \<Rightarrow> None
                  | Some (v, r2) \<Rightarrow> Some ((k, v), r2))
               else None))"

text \<open>The members of an object after its opening brace, up to the closing brace.\<close>

function parse_members :: "string \<Rightarrow> ((string \<times> string) list \<times> string) option" where
  "parse_members s =
     (case parse_member s of
        None \<Rightarrow> None
      | Some (kv, r) \<Rightarrow>
          (case skip_ws r of
             [] \<Rightarrow> None
           | c # r1 \<Rightarrow>
               if c = CHR '','' then
                 (case parse_members (skip_ws r1) of
                    None \<Rightarrow> None
                  | Some (kvs, r2) \<Rightarrow> Some (kv # kvs, r2))
               else if c = CHR ''}'' then Some ([kv], r1)
               else None))"
  by pat_completeness auto
termination
proof (relation "measure length")
  show "wf (measure length)" by simp
next
  fix s :: string and x2 kv r c r1
  assume m: "parse_member s = Some x2" and x2: "(kv, r) = x2"
    and sk: "skip_ws r = c # r1"
  have chars: "length t < length u" if "parse_chars u = Some (x, t)" for u x t
    using that
  proof (induction u arbitrary: x t rule: parse_chars.induct)
    case 1
    then show ?case by simp
  next
    case (2 c cs)
    then show ?case
      by (fastforce split: if_splits list.splits option.splits)
  qed
  have str: "length t < length u" if "parse_string u = Some (x, t)" for u x t
    using that chars by (fastforce simp: parse_string_def split: list.splits if_splits)
  have ws: "length (skip_ws u) \<le> length u" for u
    by (simp add: skip_ws_def length_dropWhile_le)
  have "length r < length s"
  proof -
    from m x2 obtain k r0 c0 r1' v where
      a: "parse_string s = Some (k, r0)" and b: "skip_ws r0 = c0 # r1'"
      and c: "parse_string (skip_ws r1') = Some (v, r)"
      by (auto simp: parse_member_def split: option.splits list.splits if_splits)
    have "length r < length (skip_ws r1')" using str [OF c] .
    also have "\<dots> \<le> length r1'" by (rule ws)
    also have "\<dots> < length (skip_ws r0)" by (simp add: b)
    also have "\<dots> \<le> length r0" by (rule ws)
    also have "\<dots> < length s" using str [OF a] .
    finally show ?thesis .
  qed
  moreover have "length (skip_ws r1) \<le> length r1" by (rule ws)
  moreover have "length r1 < length (skip_ws r)" by (simp add: sk)
  moreover have "length (skip_ws r) \<le> length r" by (rule ws)
  ultimately show "(skip_ws r1, s) \<in> measure length" by simp
qed

declare parse_members.simps [simp del]

text \<open>
  The record of a member list: a later member overrides an earlier one of the same key.
\<close>

definition user_of_members :: "(string \<times> string) list \<Rightarrow> User option" where
  "user_of_members kvs =
     (let m = map_of (rev kvs) in
      if list_all (\<lambda>kv. fst kv \<in> set [''id'', ''name'', ''email'', ''createdAt'']) kvs then
        (case (m ''id'', m ''name'', m ''email'') of
           (Some i, Some n, Some e) \<Rightarrow>
             Some \<lparr>id' = i, name = n, email = e, createdAt = m ''createdAt''\<rparr>
         | _ \<Rightarrow> None)
      else None)"

definition parse_object :: "string \<Rightarrow> (User \<times> string) option" where
  "parse_object s =
     (case s of
        [] \<Rightarrow> None
      | c # r \<Rightarrow>
          if c = CHR ''{'' then
            (case parse_members (skip_ws r) of
               None \<Rightarrow> None
             | Some (kvs, r1) \<Rightarrow> map_option (\<lambda>u. (u, r1)) (user_of_members kvs))
          else None)"

text \<open>The elements of an array after its opening bracket, up to the closing bracket.\<close>

function parse_elements :: "string \<Rightarrow> (User list \<times> string) option" where
  "parse_elements s =
     (case parse_object s of
        None \<Rightarrow> None
      | Some (u, r) \<Rightarrow>
          (case skip_ws r of
             [] \<Rightarrow> None
           | c # r1 \<Rightarrow>
               if c = CHR '','' then
                 (case parse_elements (skip_ws r1) of
                    None \<Rightarrow> None
                  | Some (us, r2) \<Rightarrow> Some (u # us, r2))
               else if c = CHR '']'' then Some ([u], r1)
               else None))"
  by pat_completeness auto
termination
proof (relation "measure length")
  show "wf (measure length)" by simp
next
  fix s :: string and x2 u r c r1
  assume ob: "parse_object s = Some x2" and x2: "(u, r) = x2"
    and sk: "skip_ws r = c # r1"
  have ws: "length (skip_ws v) \<le> length v" for v
    by (simp add: skip_ws_def length_dropWhile_le)
  have chars: "length t < length v" if "parse_chars v = Some (x, t)" for v x t
    using that
  proof (induction v arbitrary: x t rule: parse_chars.induct)
    case 1
    then show ?case by simp
  next
    case (2 c cs)
    then show ?case
      by (fastforce split: if_splits list.splits option.splits)
  qed
  have str: "length t < length v" if "parse_string v = Some (x, t)" for v x t
    using that chars by (fastforce simp: parse_string_def split: list.splits if_splits)
  have member: "length t < length v" if "parse_member v = Some (kv, t)" for v kv t
  proof -
    from that obtain k r0 c0 r1' w where
      a: "parse_string v = Some (k, r0)" and b: "skip_ws r0 = c0 # r1'"
      and c: "parse_string (skip_ws r1') = Some (w, t)"
      by (auto simp: parse_member_def split: option.splits list.splits if_splits)
    have "length t < length (skip_ws r1')" using str [OF c] .
    also have "\<dots> \<le> length r1'" by (rule ws)
    also have "\<dots> < length (skip_ws r0)" by (simp add: b)
    also have "\<dots> \<le> length r0" by (rule ws)
    also have "\<dots> < length v" using str [OF a] .
    finally show ?thesis .
  qed
  have members: "length t < length v" if "parse_members v = Some (kvs, t)" for v kvs t
    using that
  proof (induction v arbitrary: kvs t rule: parse_members.induct)
    case (1 v)
    from "1.prems" obtain kv r0 c0 r1' where
      a: "parse_member v = Some (kv, r0)" and b: "skip_ws r0 = c0 # r1'"
      by (subst (asm) parse_members.simps) (auto split: option.splits list.splits)
    have r0: "length r0 < length v" using member [OF a] .
    have r1': "length r1' < length r0"
      using ws [of r0] by (simp add: b)
    show ?case
    proof (cases "c0 = CHR '',''")
      case True
      from "1.prems" a b True obtain kvs' where
        rec: "parse_members (skip_ws r1') = Some (kvs', t)"
        by (subst (asm) parse_members.simps) (auto split: option.splits)
      have "length t < length (skip_ws r1')"
        using "1.IH" [OF a refl b True rec] .
      with ws [of r1'] r1' r0 show ?thesis by simp
    next
      case False
      from "1.prems" a b False have "t = r1'"
        by (subst (asm) parse_members.simps) (auto split: if_splits)
      with r1' r0 show ?thesis by simp
    qed
  qed
  have "length r < length s"
  proof -
    from ob x2 obtain c0 r0 kvs where
      a: "s = c0 # r0" and b: "parse_members (skip_ws r0) = Some (kvs, r)"
      by (auto simp: parse_object_def split: list.splits if_splits option.splits)
    have "length r < length (skip_ws r0)" using members [OF b] .
    with ws [of r0] a show ?thesis by simp
  qed
  moreover have "length (skip_ws r1) \<le> length r1" by (rule ws)
  moreover have "length r1 < length (skip_ws r)" by (simp add: sk)
  moreover have "length (skip_ws r) \<le> length r" by (rule ws)
  ultimately show "(skip_ws r1, s) \<in> measure length" by simp
qed

declare parse_elements.simps [simp del]

definition parse_array :: "string \<Rightarrow> (User list \<times> string) option" where
  "parse_array s =
     (case s of
        [] \<Rightarrow> None
      | c # r \<Rightarrow>
          if c = CHR ''['' then
            (case skip_ws r of
               [] \<Rightarrow> None
             | d # r1 \<Rightarrow> if d = CHR '']'' then Some ([], r1) else parse_elements (d # r1))
          else None)"

section \<open>Thrown values\<close>

text \<open>
  What a \<^verbatim>\<open>catch\<close> of the hook can receive: an \<^verbatim>\<open>Error\<close> made by a
  \<^verbatim>\<open>throw new Error(message)\<close> of the file itself, the \<^verbatim>\<open>SyntaxError\<close> of
  \<^verbatim>\<open>JSON.parse\<close>, or the value a promise of the storage was rejected with, which is an
  \<^verbatim>\<open>Error\<close> with a message or something else.
\<close>

datatype rejection = RejectedError string | RejectedOther

datatype thrown = Error string | SyntaxError | Rejected rejection

text \<open>
  The wording of the message of a \<^verbatim>\<open>SyntaxError\<close> is the engine's own; one wording
  stands for it.
\<close>

definition SyntaxError_message :: string where
  "SyntaxError_message = ''JSON Parse error''"

text \<open>\<^verbatim>\<open>err instanceof Error ? err.message : fallback\<close>\<close>

definition error_message :: "string \<Rightarrow> thrown \<Rightarrow> string" where
  "error_message fallback err =
     (case err of
        Error m \<Rightarrow> m
      | SyntaxError \<Rightarrow> SyntaxError_message
      | Rejected (RejectedError m) \<Rightarrow> m
      | Rejected RejectedOther \<Rightarrow> fallback)"

definition JSON_parse_user :: "string \<Rightarrow> thrown + User" where
  "JSON_parse_user s =
     (case parse_object (skip_ws s) of
        None \<Rightarrow> Inl SyntaxError
      | Some (u, r) \<Rightarrow> if skip_ws r = [] then Inr u else Inl SyntaxError)"

definition JSON_parse_users :: "string \<Rightarrow> thrown + User list" where
  "JSON_parse_users s =
     (case parse_array (skip_ws s) of
        None \<Rightarrow> Inl SyntaxError
      | Some (us, r) \<Rightarrow> if skip_ws r = [] then Inr us else Inl SyntaxError)"

section \<open>The state\<close>

text \<open>
  The three state variables of the hook (\<^verbatim>\<open>user\<close>, \<^verbatim>\<open>loading\<close>, \<^verbatim>\<open>error\<close>), and
  what it acts on: the key-value storage, the console and the alerts shown. The storage can
  reject a call; \<open>faults\<close> lists what the coming calls do, in order: \<open>None\<close> for a call
  that is carried out, \<open>Some r\<close> for a call that is rejected with \<open>r\<close> and changes
  nothing. Calls past the end of the list are carried out.
\<close>

record World =
  user :: "User option"
  loading :: bool
  error :: "string option"
  storage :: "string \<rightharpoonup> string"
  faults :: "rejection option list"
  console :: "(string \<times> thrown) list"
  alerts :: "string list"

text \<open>What the hook reads from outside: the clock and the platform.\<close>

record Env =
  Date_now :: nat
  Date_toISOString :: string
  Platform_OS :: string

subsection \<open>AsyncStorage\<close>

definition next_fault :: "World \<Rightarrow> rejection option \<times> World" where
  "next_fault w =
     (case faults w of
        [] \<Rightarrow> (None, w)
      | f # fs \<Rightarrow> (f, w\<lparr>faults := fs\<rparr>))"

definition AsyncStorage_getItem :: "string \<Rightarrow> World \<Rightarrow> (thrown + string option) \<times> World" where
  "AsyncStorage_getItem key w =
     (case next_fault w of
        (Some r, w1) \<Rightarrow> (Inl (Rejected r), w1)
      | (None, w1) \<Rightarrow> (Inr (storage w1 key), w1))"

definition AsyncStorage_setItem :: "string \<Rightarrow> string \<Rightarrow> World \<Rightarrow> (thrown + unit) \<times> World" where
  "AsyncStorage_setItem key v w =
     (case next_fault w of
        (Some r, w1) \<Rightarrow> (Inl (Rejected r), w1)
      | (None, w1) \<Rightarrow> (Inr (), w1\<lparr>storage := (storage w1)(key \<mapsto> v)\<rparr>))"

definition AsyncStorage_removeItem :: "string \<Rightarrow> World \<Rightarrow> (thrown + unit) \<times> World" where
  "AsyncStorage_removeItem key w =
     (case next_fault w of
        (Some r, w1) \<Rightarrow> (Inl (Rejected r), w1)
      | (None, w1) \<Rightarrow> (Inr (), w1\<lparr>storage := (storage w1)(key := None)\<rparr>))"

text \<open>The next \<open>n\<close> calls of the storage are carried out.\<close>

definition carried_out :: "nat \<Rightarrow> World \<Rightarrow> bool" where
  "carried_out n w \<longleftrightarrow> list_all (\<lambda>f. f = None) (take n (faults w))"

text \<open>
  \<^verbatim>\<open>existingUsers ? JSON.parse(existingUsers) : []\<close>: \<^verbatim>\<open>null\<close> and the empty string
  are falsy.
\<close>

definition users_of :: "string option \<Rightarrow> thrown + User list" where
  "users_of existingUsers =
     (case existingUsers of
        None \<Rightarrow> Inr []
      | Some s \<Rightarrow> if s \<noteq> [] then JSON_parse_users s else Inr [])"

section \<open>The mock API\<close>

text \<open>
  \<^verbatim>\<open>mockApi.register\<close>. The delay before it changes nothing. The two checks, the read of
  \<^verbatim>\<open>users\<close>, the scan for the email, the new record, the write of the longer list.
\<close>

definition mockApi_register ::
  "Env \<Rightarrow> string \<Rightarrow> string \<Rightarrow> string \<Rightarrow> World \<Rightarrow> (thrown + User) \<times> World" where
  "mockApi_register env name' email' password w =
     (if \<not> String_includes email' CHR ''@'' then (Inl (Error ''Invalid email format''), w)
      else if length password < 8
        then (Inl (Error ''Password must be at least 8 characters''), w)
      else
        (case AsyncStorage_getItem ''users'' w of
           (Inl e, w1) \<Rightarrow> (Inl e, w1)
         | (Inr existingUsers, w1) \<Rightarrow>
             (case users_of existingUsers of
                Inl e \<Rightarrow> (Inl e, w1)
              | Inr users \<Rightarrow>
                  if list_ex (\<lambda>u. email u = email') users
                  then (Inl (Error ''User already exists with this email''), w1)
                  else
                    (let newUser = \<lparr>id' = Number_toString (Date_now env), name = name',
                                     email = email', createdAt = Some (Date_toISOString env)\<rparr>
                     in case AsyncStorage_setItem ''users''
                               (JSON_stringify_users (users @ [newUser])) w1 of
                          (Inl e, w2) \<Rightarrow> (Inl e, w2)
                        | (Inr _, w2) \<Rightarrow> (Inr newUser, w2)))))"

text \<open>\<^verbatim>\<open>mockApi.login\<close>: the first record with the email; the password is not looked at.\<close>

definition mockApi_login :: "string \<Rightarrow> string \<Rightarrow> World \<Rightarrow> (thrown + User) \<times> World" where
  "mockApi_login email' password w =
     (case AsyncStorage_getItem ''users'' w of
        (Inl e, w1) \<Rightarrow> (Inl e, w1)
      | (Inr existingUsers, w1) \<Rightarrow>
          (case users_of existingUsers of
             Inl e \<Rightarrow> (Inl e, w1)
           | Inr users \<Rightarrow>
               (case find (\<lambda>u. email u = email') users of
                  None \<Rightarrow> (Inl (Error ''Invalid email or password''), w1)
                | Some u \<Rightarrow> (Inr u, w1))))"

section \<open>The hook\<close>

text \<open>
  Each operation is a \<^verbatim>\<open>try\<close> block with its handlers. The block is a function of its
  own (\<open>_try\<close>) that returns what was thrown, or the value, and the state at that point;
  the operation adds the \<^verbatim>\<open>catch\<close> and \<^verbatim>\<open>finally\<close> parts. \<open>Inl\<close> is a promise
  that rejects, \<open>Inr\<close> one that resolves.
\<close>

definition checkExistingSession_try :: "World \<Rightarrow> (thrown + unit) \<times> World" where
  "checkExistingSession_try w =
     (case AsyncStorage_getItem ''currentUser'' (w\<lparr>loading := True\<rparr>) of
        (Inl e, w1) \<Rightarrow> (Inl e, w1)
      | (Inr savedUser, w1) \<Rightarrow>
          (case savedUser of
             None \<Rightarrow> (Inr (), w1)
           | Some s \<Rightarrow>
               if s \<noteq> [] then
                 (case JSON_parse_user s of
                    Inl e \<Rightarrow> (Inl e, w1)
                  | Inr u \<Rightarrow> (Inr (), w1\<lparr>user := Some u\<rparr>))
               else (Inr (), w1)))"

definition checkExistingSession :: "World \<Rightarrow> (thrown + unit) \<times> World" where
  "checkExistingSession w =
     (case checkExistingSession_try w of
        (Inl err, w1) \<Rightarrow>
          (Inr (), w1\<lparr>console := console w1 @ [(''Failed to restore session:'', err)],
                       loading := False\<rparr>)
      | (Inr _, w1) \<Rightarrow> (Inr (), w1\<lparr>loading := False\<rparr>))"

definition signUp_try ::
  "Env \<Rightarrow> string \<Rightarrow> string \<Rightarrow> string \<Rightarrow> World \<Rightarrow> (thrown + unit) \<times> World" where
  "signUp_try env name' email' password w =
     (let w0 = w\<lparr>loading := True, error := None\<rparr> in
      if trim name' = [] \<or> trim email' = [] \<or> password = []
        then (Inl (Error ''All fields are required''), w0)
      else if length password < 8
        then (Inl (Error ''Password must be at least 8 characters long''), w0)
      else if \<not> String_includes email' CHR ''@'' \<or> \<not> String_includes email' CHR ''.''
        then (Inl (Error ''Please enter a valid email address''), w0)
      else
        (case mockApi_register env (trim name') (toLowerCase (trim email')) password w0 of
           (Inl e, w1) \<Rightarrow> (Inl e, w1)
         | (Inr newUser, w1) \<Rightarrow>
             (case AsyncStorage_setItem ''currentUser'' (JSON_stringify_user newUser) w1 of
                (Inl e, w2) \<Rightarrow> (Inl e, w2)
              | (Inr _, w2) \<Rightarrow>
                  (let w3 = w2\<lparr>user := Some newUser\<rparr> in
                   if Platform_OS env = ''web''
                   then (Inr (), w3\<lparr>alerts := alerts w3 @ [''Account created successfully!'']\<rparr>)
                   else (Inr (), w3)))))"

definition signUp ::
  "Env \<Rightarrow> string \<Rightarrow> string \<Rightarrow> string \<Rightarrow> World \<Rightarrow> (thrown + unit) \<times> World" where
  "signUp env name' email' password w =
     (case signUp_try env name' email' password w of
        (Inl err, w1) \<Rightarrow>
          (Inl err, w1\<lparr>error := Some (error_message ''Registration failed'' err),
                        loading := False\<rparr>)
      | (Inr _, w1) \<Rightarrow> (Inr (), w1\<lparr>loading := False\<rparr>))"

definition signIn_try :: "string \<Rightarrow> string \<Rightarrow> World \<Rightarrow> (thrown + unit) \<times> World" where
  "signIn_try email' password w =
     (let w0 = w\<lparr>loading := True, error := None\<rparr> in
      if trim email' = [] \<or> password = []
        then (Inl (Error ''Email and password are required''), w0)
      else
        (case mockApi_login (toLowerCase (trim email')) password w0 of
           (Inl e, w1) \<Rightarrow> (Inl e, w1)
         | (Inr loggedInUser, w1) \<Rightarrow>
             (case AsyncStorage_setItem ''currentUser'' (JSON_stringify_user loggedInUser) w1 of
                (Inl e, w2) \<Rightarrow> (Inl e, w2)
              | (Inr _, w2) \<Rightarrow> (Inr (), w2\<lparr>user := Some loggedInUser\<rparr>))))"

definition signIn :: "string \<Rightarrow> string \<Rightarrow> World \<Rightarrow> (thrown + unit) \<times> World" where
  "signIn email' password w =
     (case signIn_try email' password w of
        (Inl err, w1) \<Rightarrow>
          (Inl err, w1\<lparr>error := Some (error_message ''Login failed'' err), loading := False\<rparr>)
      | (Inr _, w1) \<Rightarrow> (Inr (), w1\<lparr>loading := False\<rparr>))"

definition signOut_try :: "World \<Rightarrow> (thrown + unit) \<times> World" where
  "signOut_try w =
     (case AsyncStorage_removeItem ''currentUser'' (w\<lparr>loading := True\<rparr>) of
        (Inl e, w1) \<Rightarrow> (Inl e, w1)
      | (Inr _, w1) \<Rightarrow> (Inr (), w1\<lparr>user := None\<rparr>))"

definition signOut :: "World \<Rightarrow> (thrown + unit) \<times> World" where
  "signOut w =
     (case signOut_try w of
        (Inl err, w1) \<Rightarrow>
          (Inr (), w1\<lparr>console := console w1 @ [(''Sign out error:'', err)], loading := False\<rparr>)
      | (Inr _, w1) \<Rightarrow> (Inr (), w1\<lparr>loading := False\<rparr>))"

text \<open>
  \<^verbatim>\<open>updateUser\<close>. When the slot \<^verbatim>\<open>users\<close> holds a text, every record with the
  identifier of the session's user is replaced and the list is written back.
\<close>

definition updateUser_try :: "PartialUser \<Rightarrow> World \<Rightarrow> (thrown + unit) \<times> World" where
  "updateUser_try userData w =
     (case user w of
        None \<Rightarrow> (Inl (Error ''No user logged in''), w)
      | Some u \<Rightarrow>
          (let updatedUser = spread u userData in
           case AsyncStorage_setItem ''currentUser'' (JSON_stringify_user updatedUser) w of
             (Inl e, w1) \<Rightarrow> (Inl e, w1)
           | (Inr _, w1) \<Rightarrow>
               (case AsyncStorage_getItem ''users'' w1 of
                  (Inl e, w2) \<Rightarrow> (Inl e, w2)
                | (Inr existingUsers, w2) \<Rightarrow>
                    (case
                       (case existingUsers of
                          None \<Rightarrow> (Inr (), w2)
                        | Some s \<Rightarrow>
                            if s \<noteq> [] then
                              (case JSON_parse_users s of
                                 Inl e \<Rightarrow> (Inl e, w2)
                               | Inr users \<Rightarrow>
                                   AsyncStorage_setItem ''users''
                                     (JSON_stringify_users
                                        (map (\<lambda>x. if id' x = id' u then updatedUser else x) users))
                                     w2)
                            else (Inr (), w2))
                     of
                       (Inl e, w3) \<Rightarrow> (Inl e, w3)
                     | (Inr _, w3) \<Rightarrow> (Inr (), w3\<lparr>user := Some updatedUser\<rparr>)))))"

definition updateUser :: "PartialUser \<Rightarrow> World \<Rightarrow> (thrown + unit) \<times> World" where
  "updateUser userData w =
     (case updateUser_try userData w of
        (Inl err, w1) \<Rightarrow> (Inl err, w1\<lparr>error := Some (error_message ''Update failed'' err)\<rparr>)
      | (Inr _, w1) \<Rightarrow> (Inr (), w1))"

text \<open>
  The record a \<^verbatim>\<open>signUp\<close> makes: the \<^verbatim>\<open>newUser\<close> of \<^verbatim>\<open>mockApi.register\<close> for the
  name and email that \<^verbatim>\<open>signUp\<close> passes to it.
\<close>

definition newUser_of :: "Env \<Rightarrow> string \<Rightarrow> string \<Rightarrow> User" where
  "newUser_of env name' email' =
     \<lparr>id' = Number_toString (Date_now env), name = trim name',
      email = toLowerCase (trim email'), createdAt = Some (Date_toISOString env)\<rparr>"

section \<open>Example states\<close>

text \<open>
  A clock and platform, a user record, a change of the display name, the state of the hook
  on a first start (nothing stored, nobody signed in), and the state with the example user
  registered and signed in.
\<close>

definition example_env :: Env where
  "example_env =
     \<lparr>Date_now = 1700000000000, Date_toISOString = ''2023-11-14T22:13:20.000Z'',
      Platform_OS = ''android''\<rparr>"

definition example_user :: User where
  "example_user =
     \<lparr>id' = ''1700000000000'', name = ''Asha'', email = ''asha@example.com'',
      createdAt = Some ''2023-11-14T22:13:20.000Z''\<rparr>"

definition new_name :: PartialUser where
  "new_name = \<lparr>id_opt = None, name_opt = Some ''New Name'', email_opt = None, createdAt_opt = None\<rparr>"

definition first_start :: World where
  "first_start =
     \<lparr>user = None, loading = False, error = None, storage = Map.empty, faults = [],
      console = [], alerts = []\<rparr>"

definition signed_in :: World where
  "signed_in =
     \<lparr>user = Some example_user, loading = False, error = None,
      storage = [''users'' \<mapsto> JSON_stringify_users [example_user],
                 ''currentUser'' \<mapsto> JSON_stringify_user example_user],
      faults = [], console = [], alerts = []\<rparr>"

section \<open>Reading back what was written\<close>

text \<open>
  \<^verbatim>\<open>JSON.parse\<close> undoes \<^verbatim>\<open>JSON.stringify\<close>, on a string, a record and a list of
  records, whatever follows the text.
\<close>

lemma hex_value_hex_digit: "n < 16 \<Longrightarrow> hex_value (hex_digit n) = Some n"
  by (auto simp: hex_value_def hex_digit_def Let_def)

lemma hex4_low:
  "n < 256 \<Longrightarrow> hex4 CHR ''0'' CHR ''0'' (hex_digit (n div 16)) (hex_digit (n mod 16)) = Some n"
proof -
  assume n: "n < 256"
  have z: "hex_value CHR ''0'' = Some 0" by (simp add: hex_value_def)
  have hi: "hex_value (hex_digit (n div 16)) = Some (n div 16)"
    using n by (intro hex_value_hex_digit) (simp add: less_mult_imp_div_less)
  have lo: "hex_value (hex_digit (n mod 16)) = Some (n mod 16)"
    by (intro hex_value_hex_digit) simp
  show ?thesis by (simp add: hex4_def z hi lo)
qed

lemma parse_chars_quote_char:
  "parse_chars (quote_char c @ X) = map_option (\<lambda>(s, t). (c # s, t)) (parse_chars X)"
proof -
  consider (b) "c = CHR 0x08" | (t) "c = CHR 0x09" | (n) "c = CHR 0x0A" | (f) "c = CHR 0x0C"
    | (r) "c = CHR 0x0D" | (q) "c = CHR 0x22" | (s) "c = CHR 0x5C"
    | (u) "c \<notin> {CHR 0x08, CHR 0x09, CHR 0x0A, CHR 0x0C, CHR 0x0D, CHR 0x22, CHR 0x5C}"
          "(of_char c :: nat) < 32"
    | (p) "c \<notin> {CHR 0x08, CHR 0x09, CHR 0x0A, CHR 0x0C, CHR 0x0D, CHR 0x22, CHR 0x5C}"
          "\<not> (of_char c :: nat) < 32"
    by blast
  then show ?thesis
  proof cases
    case u
    have "(of_char c :: nat) < 256" using u(2) by simp
    then have h: "hex4 CHR ''0'' CHR ''0'' (hex_digit (of_char c div 16))
        (hex_digit (of_char c mod 16)) = Some (of_char c)"
      by (rule hex4_low)
    show ?thesis using u by (simp add: quote_char_def h)
  next
    case p
    then show ?thesis by (simp add: quote_char_def)
  qed (simp_all add: quote_char_def unescape_def)
qed

lemma parse_chars_quoted:
  "parse_chars (concat (map quote_char s) @ CHR 0x22 # rest) = Some (s, rest)"
  by (induction s) (simp_all add: parse_chars_quote_char)

lemma parse_string_quoted: "parse_string (QuoteJSONString s @ rest) = Some (s, rest)"
  by (simp add: parse_string_def QuoteJSONString_def parse_chars_quoted)

lemma skip_ws_quoted: "skip_ws (QuoteJSONString s @ rest) = QuoteJSONString s @ rest"
  by (simp add: skip_ws_def QuoteJSONString_def is_json_ws_def)

lemma skip_ws_Nil: "skip_ws [] = []"
  by (simp add: skip_ws_def)

lemma skip_ws_token: "\<not> is_json_ws c \<Longrightarrow> skip_ws (c # r) = c # r"
  by (simp add: skip_ws_def)

lemma parse_member_quoted:
  "parse_member (QuoteJSONString k @ CHR '':'' # QuoteJSONString v @ rest) = Some ((k, v), rest)"
  by (simp add: parse_member_def parse_string_quoted skip_ws_quoted skip_ws_token is_json_ws_def)

lemma parse_members_last:
  "parse_members (QuoteJSONString k @ CHR '':'' # QuoteJSONString v @ CHR ''}'' # rest)
     = Some ([(k, v)], rest)"
  by (subst parse_members.simps) (simp add: parse_member_quoted skip_ws_token is_json_ws_def)

lemma parse_members_more:
  "parse_members (QuoteJSONString k @ CHR '':'' # QuoteJSONString v @ CHR '','' # QuoteJSONString k' @ X)
     = (case parse_members (QuoteJSONString k' @ X) of
          None \<Rightarrow> None
        | Some (kvs, r2) \<Rightarrow> Some ((k, v) # kvs, r2))"
  by (subst parse_members.simps)
     (simp add: parse_member_quoted skip_ws_quoted skip_ws_token is_json_ws_def)

lemma parse_object_stringify:
  "parse_object (JSON_stringify_user u @ rest) = Some (u, rest)"
proof (cases "createdAt u")
  case None
  then show ?thesis
    by (simp add: parse_object_def JSON_stringify_user_def skip_ws_quoted
        parse_members_more parse_members_last user_of_members_def)
next
  case (Some t)
  then show ?thesis
    by (simp add: parse_object_def JSON_stringify_user_def skip_ws_quoted
        parse_members_more parse_members_last user_of_members_def)
qed

lemma stringify_user_brace: "\<exists>t. JSON_stringify_user u = CHR ''{'' # t"
  by (simp add: JSON_stringify_user_def)

lemma stringify_user_nonempty: "JSON_stringify_user u \<noteq> []"
  by (simp add: JSON_stringify_user_def)

lemma join_comma_Cons: "xs \<noteq> [] \<Longrightarrow> join_comma (x # xs) = x @ CHR '','' # join_comma xs"
  by (cases xs) simp_all

lemma join_comma_brace:
  "us \<noteq> [] \<Longrightarrow> \<exists>t. join_comma (map JSON_stringify_user us) = CHR ''{'' # t"
proof (cases us)
  case Nil
  assume "us \<noteq> []"
  with Nil show ?thesis by simp
next
  case (Cons u vs)
  obtain t where t: "JSON_stringify_user u = CHR ''{'' # t"
    using stringify_user_brace by blast
  show ?thesis
  proof (cases vs)
    case Nil
    with Cons t show ?thesis by simp
  next
    case (Cons v ws)
    with \<open>us = u # vs\<close> t show ?thesis by simp
  qed
qed

lemma parse_elements_joined:
  "us \<noteq> [] \<Longrightarrow>
   parse_elements (join_comma (map JSON_stringify_user us) @ CHR '']'' # rest) = Some (us, rest)"
proof (induction us rule: list_nonempty_induct)
  case (single u)
  show ?case
    by (subst parse_elements.simps)
       (simp add: parse_object_stringify skip_ws_token is_json_ws_def)
next
  case (cons u us)
  obtain t where t: "join_comma (map JSON_stringify_user us) = CHR ''{'' # t"
    using join_comma_brace [OF cons.hyps] by blast
  have sk: "skip_ws (join_comma (map JSON_stringify_user us) @ CHR '']'' # rest)
      = join_comma (map JSON_stringify_user us) @ CHR '']'' # rest"
    by (simp add: t skip_ws_token is_json_ws_def)
  have j: "join_comma (JSON_stringify_user u # map JSON_stringify_user us)
      = JSON_stringify_user u @ CHR '','' # join_comma (map JSON_stringify_user us)"
    using cons.hyps by (simp add: join_comma_Cons)
  show ?case
    by (subst parse_elements.simps)
       (simp add: j parse_object_stringify skip_ws_token is_json_ws_def sk cons.IH)
qed

lemma JSON_parse_stringify_user: "JSON_parse_user (JSON_stringify_user u) = Inr u"
proof -
  obtain t where t: "JSON_stringify_user u = CHR ''{'' # t"
    using stringify_user_brace by blast
  have sk: "skip_ws (JSON_stringify_user u) = JSON_stringify_user u"
    by (simp add: t skip_ws_token is_json_ws_def)
  have "parse_object (JSON_stringify_user u @ []) = Some (u, [])"
    by (rule parse_object_stringify)
  then show ?thesis
    by (simp add: JSON_parse_user_def sk skip_ws_Nil)
qed

lemma JSON_parse_stringify_users: "JSON_parse_users (JSON_stringify_users us) = Inr us"
proof (cases "us = []")
  case True
  then show ?thesis
    by (simp add: JSON_parse_users_def JSON_stringify_users_def parse_array_def
        skip_ws_token is_json_ws_def skip_ws_Nil)
next
  case False
  obtain t where t: "join_comma (map JSON_stringify_user us) = CHR ''{'' # t"
    using join_comma_brace [OF False] by blast
  have el: "parse_elements (CHR ''{'' # t @ '']'') = Some (us, [])"
    using parse_elements_joined [OF False, of "[]"] by (simp add: t)
  show ?thesis
    by (simp add: JSON_parse_users_def JSON_stringify_users_def parse_array_def t
        skip_ws_token is_json_ws_def el skip_ws_Nil)
qed

lemma stringify_users_nonempty: "JSON_stringify_users us \<noteq> []"
  by (simp add: JSON_stringify_users_def)

lemma users_of_stringify: "users_of (Some (JSON_stringify_users us)) = Inr us"
  by (simp add: users_of_def stringify_users_nonempty JSON_parse_stringify_users)

lemma users_of_Inl: "users_of x = Inl e \<Longrightarrow> e = SyntaxError"
  by (auto simp: users_of_def JSON_parse_users_def split: option.splits if_splits prod.splits)

section \<open>Trimming and lower case keep the at sign\<close>

lemma dropWhile_keeps: "x \<in> set xs \<Longrightarrow> \<not> P x \<Longrightarrow> x \<in> set (dropWhile P xs)"
  by (induction xs) auto

lemma trim_keeps: "c \<in> set s \<Longrightarrow> \<not> isWhiteSpace c \<Longrightarrow> c \<in> set (trim s)"
  by (simp add: trim_def dropWhile_keeps)

lemma normalised_includes_at:
  "String_includes e CHR ''@'' \<Longrightarrow> String_includes (toLowerCase (trim e)) CHR ''@''"
proof -
  assume "String_includes e CHR ''@''"
  then have "CHR ''@'' \<in> set (trim e)"
    by (simp add: String_includes_def trim_keeps isWhiteSpace_def)
  then have "lower_char CHR ''@'' \<in> set (map lower_char (trim e))"
    unfolding set_map by (rule imageI)
  moreover have "lower_char CHR ''@'' = CHR ''@''"
    by (simp add: lower_char_def)
  ultimately show ?thesis
    by (simp add: String_includes_def toLowerCase_def)
qed

section \<open>Calls of the storage\<close>

lemma carried_out_next:
  "carried_out (Suc n) w \<Longrightarrow> next_fault w = (None, w\<lparr>faults := tl (faults w)\<rparr>)"
  by (cases "faults w") (simp_all add: carried_out_def next_fault_def)

lemma carried_out_drop:
  "carried_out (Suc n) w \<Longrightarrow> carried_out n (w\<lparr>faults := tl (faults w)\<rparr>)"
  by (cases "faults w") (simp_all add: carried_out_def)

lemma carried_out_less: "carried_out (Suc n) w \<Longrightarrow> carried_out n w"
proof -
  assume a: "carried_out (Suc n) w"
  have "set (take n (faults w)) \<subseteq> set (take (Suc n) (faults w))"
    by (rule set_take_subset_set_take) simp
  with a show ?thesis
    by (auto simp: carried_out_def list_all_iff)
qed

lemma carried_out_Suc:
  "carried_out (Suc n) w \<longleftrightarrow>
     carried_out (Suc 0) w \<and> carried_out n (w\<lparr>faults := tl (faults w)\<rparr>)"
  by (cases "faults w") (auto simp: carried_out_def)

lemma getItem_carried_out:
  "carried_out (Suc n) w \<Longrightarrow>
   AsyncStorage_getItem key w = (Inr (storage w key), w\<lparr>faults := tl (faults w)\<rparr>)"
  by (simp add: AsyncStorage_getItem_def carried_out_next)

lemma setItem_carried_out:
  "carried_out (Suc n) w \<Longrightarrow>
   AsyncStorage_setItem key v w
     = (Inr (), w\<lparr>faults := tl (faults w), storage := (storage w)(key \<mapsto> v)\<rparr>)"
  by (simp add: AsyncStorage_setItem_def carried_out_next)

lemma getItem_Inr:
  "AsyncStorage_getItem key w = (Inr x, w') \<Longrightarrow>
   carried_out (Suc 0) w \<and> x = storage w key \<and> w' = w\<lparr>faults := tl (faults w)\<rparr>"
  by (cases "faults w")
     (auto simp: AsyncStorage_getItem_def next_fault_def carried_out_def split: option.splits)

lemma setItem_Inr:
  "AsyncStorage_setItem key v w = (Inr x, w') \<Longrightarrow>
   carried_out (Suc 0) w
   \<and> w' = w\<lparr>faults := tl (faults w), storage := (storage w)(key \<mapsto> v)\<rparr>"
  by (cases "faults w")
     (auto simp: AsyncStorage_setItem_def next_fault_def carried_out_def split: option.splits)

section \<open>Signing out\<close>

lemma signOut_rejected:
  "faults w = Some r # fs \<Longrightarrow>
   signOut w = (Inr (), w\<lparr>faults := fs,
                          console := console w @ [(''Sign out error:'', Rejected r)],
                          loading := False\<rparr>)"
  by (simp add: signOut_def signOut_try_def AsyncStorage_removeItem_def next_fault_def)

text \<open>
  C1, as the code has it. When the storage rejects the removal of \<^verbatim>\<open>currentUser\<close>,
  \<^verbatim>\<open>signOut\<close> still resolves: what was thrown goes to the console under
  \<^verbatim>\<open>Sign out error:\<close> and the loading flag is reset. The session is not cleared: the
  \<^verbatim>\<open>setUser(null)\<close> stands after the rejected call inside the \<^verbatim>\<open>try\<close> block and is
  skipped, so the user in the session is the one from before, and the storage is untouched.
\<close>

theorem signOut_removal_rejected:
  assumes "faults w = Some r # fs"
  shows "fst (signOut w) = Inr ()
         \<and> console (snd (signOut w)) = console w @ [(''Sign out error:'', Rejected r)]
         \<and> user (snd (signOut w)) = user w
         \<and> storage (snd (signOut w)) = storage w
         \<and> loading (snd (signOut w)) = False"
  using assms by (simp add: signOut_rejected)

theorem signOut_removal_rejected_witness:
  "faults (signed_in\<lparr>faults := [Some (RejectedError ''storage unavailable'')]\<rparr>)
     = [Some (RejectedError ''storage unavailable'')]
   \<and> fst (signOut (signed_in\<lparr>faults := [Some (RejectedError ''storage unavailable'')]\<rparr>)) = Inr ()
   \<and> console (snd (signOut (signed_in\<lparr>faults := [Some (RejectedError ''storage unavailable'')]\<rparr>)))
       = [(''Sign out error:'', Rejected (RejectedError ''storage unavailable''))]
   \<and> user (snd (signOut (signed_in\<lparr>faults := [Some (RejectedError ''storage unavailable'')]\<rparr>)))
       = Some example_user
   \<and> loading (snd (signOut (signed_in\<lparr>faults := [Some (RejectedError ''storage unavailable'')]\<rparr>)))
       = False"
proof -
  have h: "faults (signed_in\<lparr>faults := [Some (RejectedError ''storage unavailable'')]\<rparr>)
      = Some (RejectedError ''storage unavailable'') # []"
    by simp
  show ?thesis
    using signOut_removal_rejected [OF h] by (simp add: signed_in_def)
qed

text \<open>
  The claim that the session is cleared all the same fails for the example user signed in
  and a storage that rejects the removal: the call is rejected, \<^verbatim>\<open>signOut\<close> resolves,
  and the session still holds a user.
\<close>

theorem signOut_clears_counterexample:
  "fst (AsyncStorage_removeItem ''currentUser''
          (signed_in\<lparr>faults := [Some (RejectedError ''storage unavailable'')]\<rparr>))
     = Inl (Rejected (RejectedError ''storage unavailable''))
   \<and> fst (signOut (signed_in\<lparr>faults := [Some (RejectedError ''storage unavailable'')]\<rparr>)) = Inr ()
   \<and> user (snd (signOut (signed_in\<lparr>faults := [Some (RejectedError ''storage unavailable'')]\<rparr>)))
       \<noteq> None"
  by (simp add: signOut_def signOut_try_def AsyncStorage_removeItem_def next_fault_def
      signed_in_def)

section \<open>Updating the profile\<close>

lemma updateUser_read_rejected:
  assumes "user w = Some u" and "faults w = None # Some r # fs"
  shows "updateUser userData w =
     (Inl (Rejected r),
      w\<lparr>faults := fs,
        storage := (storage w)(''currentUser'' \<mapsto> JSON_stringify_user (spread u userData)),
        error := Some (error_message ''Update failed'' (Rejected r))\<rparr>)"
  using assms
  by (simp add: updateUser_def updateUser_try_def AsyncStorage_setItem_def
      AsyncStorage_getItem_def next_fault_def)

lemma updateUser_no_list:
  assumes "user w = Some u" and "carried_out 2 w"
    and "storage w ''users'' = None \<or> storage w ''users'' = Some []"
  shows "updateUser userData w =
     (Inr (),
      w\<lparr>faults := tl (tl (faults w)),
        storage := (storage w)(''currentUser'' \<mapsto> JSON_stringify_user (spread u userData)),
        user := Some (spread u userData)\<rparr>)"
proof -
  have two: "carried_out (Suc (Suc 0)) w" using assms(2) by (simp add: numeral_2_eq_2)
  let ?w1 = "w\<lparr>faults := tl (faults w),
      storage := (storage w)(''currentUser'' \<mapsto> JSON_stringify_user (spread u userData))\<rparr>"
  have s1: "AsyncStorage_setItem ''currentUser'' (JSON_stringify_user (spread u userData)) w
      = (Inr (), ?w1)"
    by (rule setItem_carried_out [OF two])
  have one: "carried_out (Suc 0) ?w1"
    using carried_out_drop [OF two] by (simp add: carried_out_def)
  have s2: "AsyncStorage_getItem ''users'' ?w1
      = (Inr (storage w ''users''), ?w1\<lparr>faults := tl (faults ?w1)\<rparr>)"
    using getItem_carried_out [OF one, of "''users''"] by simp
  from assms(3) show ?thesis
    by (auto simp: updateUser_def updateUser_try_def Let_def assms(1) s1 s2)
qed

text \<open>
  C2, as the code has it, for a session holding the user \<open>u\<close>. When the write of
  \<^verbatim>\<open>currentUser\<close> is carried out and the read of \<^verbatim>\<open>users\<close> is rejected,
  \<^verbatim>\<open>updateUser\<close> rejects with what the read was rejected with and records its message;
  the session keeps \<open>u\<close>, while the slot \<^verbatim>\<open>currentUser\<close> already holds the merged
  record. The update of the list is skipped without an error when the read is carried out
  and finds no list (no value, or the empty string): then the session becomes the merged
  record and only the slot \<^verbatim>\<open>currentUser\<close> is written.
\<close>

theorem updateUser_users_read:
  assumes "user w = Some u"
  shows "(faults w = None # Some r # fs \<longrightarrow>
            fst (updateUser userData w) = Inl (Rejected r)
          \<and> error (snd (updateUser userData w)) = Some (error_message ''Update failed'' (Rejected r))
          \<and> user (snd (updateUser userData w)) = Some u
          \<and> storage (snd (updateUser userData w))
              = (storage w)(''currentUser'' \<mapsto> JSON_stringify_user (spread u userData)))
       \<and> (carried_out 2 w \<and> (storage w ''users'' = None \<or> storage w ''users'' = Some []) \<longrightarrow>
            fst (updateUser userData w) = Inr ()
          \<and> user (snd (updateUser userData w)) = Some (spread u userData)
          \<and> storage (snd (updateUser userData w))
              = (storage w)(''currentUser'' \<mapsto> JSON_stringify_user (spread u userData)))"
  using assms by (simp add: updateUser_read_rejected updateUser_no_list)

theorem updateUser_users_read_witness:
  "user (signed_in\<lparr>faults := [None, Some (RejectedError ''read failed'')]\<rparr>) = Some example_user
   \<and> faults (signed_in\<lparr>faults := [None, Some (RejectedError ''read failed'')]\<rparr>)
       = [None, Some (RejectedError ''read failed'')]
   \<and> fst (updateUser new_name (signed_in\<lparr>faults := [None, Some (RejectedError ''read failed'')]\<rparr>))
       = Inl (Rejected (RejectedError ''read failed''))
   \<and> error (snd (updateUser new_name
         (signed_in\<lparr>faults := [None, Some (RejectedError ''read failed'')]\<rparr>)))
       = Some ''read failed''
   \<and> user (snd (updateUser new_name
         (signed_in\<lparr>faults := [None, Some (RejectedError ''read failed'')]\<rparr>)))
       = Some example_user
   \<and> user (first_start\<lparr>user := Some example_user\<rparr>) = Some example_user
   \<and> carried_out 2 (first_start\<lparr>user := Some example_user\<rparr>)
   \<and> storage (first_start\<lparr>user := Some example_user\<rparr>) ''users'' = None
   \<and> fst (updateUser new_name (first_start\<lparr>user := Some example_user\<rparr>)) = Inr ()
   \<and> user (snd (updateUser new_name (first_start\<lparr>user := Some example_user\<rparr>)))
       = Some (example_user\<lparr>name := ''New Name''\<rparr>)"
proof -
  have a: "user (signed_in\<lparr>faults := [None, Some (RejectedError ''read failed'')]\<rparr>)
      = Some example_user"
    by (simp add: signed_in_def)
  have b: "user (first_start\<lparr>user := Some example_user\<rparr>) = Some example_user"
    by simp
  have c: "spread example_user new_name = example_user\<lparr>name := ''New Name''\<rparr>"
    by (simp add: spread_def new_name_def example_user_def)
  show ?thesis
    using updateUser_users_read [OF a, of "RejectedError ''read failed''" "[]" new_name]
      updateUser_users_read [OF b, of "RejectedError ''read failed''" "[]" new_name]
    by (simp add: a c carried_out_def first_start_def error_message_def)
qed

text \<open>
  The claim that a failed read is passed over fails for the example user changing the
  display name, when the storage carries out the write and rejects the read: the operation
  rejects and the session still holds the old record, not the merged one.
\<close>

theorem updateUser_read_failure_counterexample:
  "fst (updateUser new_name (signed_in\<lparr>faults := [None, Some (RejectedError ''read failed'')]\<rparr>))
     = Inl (Rejected (RejectedError ''read failed''))
   \<and> user (snd (updateUser new_name
         (signed_in\<lparr>faults := [None, Some (RejectedError ''read failed'')]\<rparr>)))
       = Some example_user
   \<and> user (snd (updateUser new_name
         (signed_in\<lparr>faults := [None, Some (RejectedError ''read failed'')]\<rparr>)))
       \<noteq> Some (spread example_user new_name)"
proof -
  have a: "user (signed_in\<lparr>faults := [None, Some (RejectedError ''read failed'')]\<rparr>)
      = Some example_user"
    by (simp add: signed_in_def)
  have f: "faults (signed_in\<lparr>faults := [None, Some (RejectedError ''read failed'')]\<rparr>)
      = None # Some (RejectedError ''read failed'') # []"
    by simp
  have c: "spread example_user new_name \<noteq> example_user"
    by (simp add: spread_def new_name_def example_user_def)
  show ?thesis
    using c a by (simp add: updateUser_read_rejected [OF a f])
qed

text \<open>
  C6. With no user in the session, \<^verbatim>\<open>updateUser\<close> rejects with the error
  \<^verbatim>\<open>No user logged in\<close>, for every argument. It makes no call of the storage (the list
  of coming calls is as before), so no slot of the storage changes, and the session stays
  empty.
\<close>

theorem updateUser_signed_out:
  assumes "user w = None"
  shows "fst (updateUser userData w) = Inl (Error ''No user logged in'')
         \<and> storage (snd (updateUser userData w)) = storage w
         \<and> faults (snd (updateUser userData w)) = faults w
         \<and> user (snd (updateUser userData w)) = None"
  using assms by (simp add: updateUser_def updateUser_try_def)

theorem updateUser_signed_out_witness:
  "user first_start = None
   \<and> fst (updateUser new_name first_start) = Inl (Error ''No user logged in'')
   \<and> storage (snd (updateUser new_name first_start)) ''users'' = None
   \<and> storage (snd (updateUser new_name first_start)) ''currentUser'' = None
   \<and> user (snd (updateUser new_name first_start)) = None"
proof -
  have h: "user first_start = None" by (simp add: first_start_def)
  show ?thesis
    using h updateUser_signed_out [OF h, of new_name] by (simp add: first_start_def)
qed

lemma next_fault_loading: "next_fault w = (f, w') \<Longrightarrow> loading w' = loading w"
  by (auto simp: next_fault_def split: list.splits)

lemma setItem_loading: "AsyncStorage_setItem key v w = (r, w') \<Longrightarrow> loading w' = loading w"
  by (auto simp: AsyncStorage_setItem_def split: prod.splits option.splits
      dest: next_fault_loading)

lemma getItem_loading: "AsyncStorage_getItem key w = (r, w') \<Longrightarrow> loading w' = loading w"
  by (auto simp: AsyncStorage_getItem_def split: prod.splits option.splits
      dest: next_fault_loading)

lemma updateUser_try_loading: "updateUser_try userData w = (r, w') \<Longrightarrow> loading w' = loading w"
  by (auto simp: updateUser_try_def Let_def
      split: option.splits prod.splits sum.splits if_splits
      dest!: setItem_loading getItem_loading)

lemma updateUser_loading: "loading (snd (updateUser userData w)) = loading w"
  by (auto simp: updateUser_def split: prod.splits sum.splits dest: updateUser_try_loading)

lemma signUp_loading: "loading (snd (signUp env name' email' password w)) = False"
  by (simp add: signUp_def split: prod.splits sum.splits)

lemma signIn_loading: "loading (snd (signIn email' password w)) = False"
  by (simp add: signIn_def split: prod.splits sum.splits)

lemma signOut_loading: "loading (snd (signOut w)) = False"
  by (simp add: signOut_def split: prod.splits sum.splits)

lemma checkExistingSession_loading: "loading (snd (checkExistingSession w)) = False"
  by (simp add: checkExistingSession_def split: prod.splits sum.splits)

text \<open>
  C10. \<^verbatim>\<open>updateUser\<close> leaves the loading flag as it found it, whatever its argument,
  the state and the storage, and whether it resolves or rejects. The other four operations
  all end with the flag false.
\<close>

theorem updateUser_keeps_loading:
  "loading (snd (updateUser userData w)) = loading w
   \<and> loading (snd (signUp env name' email' password w)) = False
   \<and> loading (snd (signIn email' password w)) = False
   \<and> loading (snd (signOut w)) = False
   \<and> loading (snd (checkExistingSession w)) = False"
  by (simp add: updateUser_loading signUp_loading signIn_loading signOut_loading
      checkExistingSession_loading)

theorem updateUser_keeps_loading_witness:
  "loading (snd (updateUser new_name (signed_in\<lparr>loading := True\<rparr>))) = True
   \<and> loading (snd (updateUser new_name first_start)) = False
   \<and> loading (snd (signOut (signed_in\<lparr>loading := True\<rparr>))) = False"
  using updateUser_keeps_loading [of new_name "signed_in\<lparr>loading := True\<rparr>"]
    updateUser_keeps_loading [of new_name first_start]
  by (simp add: first_start_def)

section \<open>Signing up\<close>

lemma register_beyond_checks:
  assumes "String_includes email' CHR ''@''" and "\<not> length password < 8"
  shows "fst (mockApi_register env name' email' password w) \<noteq> Inl (Error ''Invalid email format'')
         \<and> fst (mockApi_register env name' email' password w)
             \<noteq> Inl (Error ''Password must be at least 8 characters'')"
  using assms
  by (auto simp: mockApi_register_def AsyncStorage_getItem_def AsyncStorage_setItem_def
      Let_def split: prod.splits sum.splits option.splits if_splits dest: users_of_Inl)

lemma setItem_Inl: "AsyncStorage_setItem key v w = (Inl e, w') \<Longrightarrow> \<exists>r. e = Rejected r"
  by (auto simp: AsyncStorage_setItem_def split: prod.splits option.splits)

lemma signUp_beyond_checks:
  "fst (signUp env name' email' password w) \<noteq> Inl (Error ''Invalid email format'')
   \<and> fst (signUp env name' email' password w)
       \<noteq> Inl (Error ''Password must be at least 8 characters'')"
proof (cases "trim name' \<noteq> [] \<and> trim email' \<noteq> [] \<and> password \<noteq> []
    \<and> \<not> length password < 8
    \<and> String_includes email' CHR ''@'' \<and> String_includes email' CHR ''.''")
  case False
  then show ?thesis
    by (auto simp: signUp_def signUp_try_def Let_def)
next
  case True
  then have at: "String_includes (toLowerCase (trim email')) CHR ''@''"
    by (simp add: normalised_includes_at)
  from True have len: "\<not> length password < 8" by simp
  note reg = register_beyond_checks [OF at len, of env "trim name'"
      "w\<lparr>loading := True, error := None\<rparr>"]
  show ?thesis
    using True reg
    by (auto simp: signUp_def signUp_try_def Let_def
        split: prod.splits sum.splits dest!: setItem_Inl)
qed

text \<open>
  C8. For an input that passes the checks of \<^verbatim>\<open>signUp\<close> (name and email not empty
  after trimming, password not empty and not shorter than 8, email with an at sign and a
  full stop), the two checks of \<^verbatim>\<open>mockApi.register\<close> cannot fire on the arguments
  \<^verbatim>\<open>signUp\<close> passes on: the trimmed, lower-cased email still has its at sign and the
  password is not shorter than 8, so the registration never throws
  \<^verbatim>\<open>Invalid email format\<close> or \<^verbatim>\<open>Password must be at least 8 characters\<close>, whatever
  the state and the storage, and \<^verbatim>\<open>signUp\<close> never rejects with either.
\<close>

theorem register_checks_unreachable:
  assumes "trim name' \<noteq> []" and "trim email' \<noteq> []" and "password \<noteq> []"
    and "\<not> length password < 8"
    and "String_includes email' CHR ''@''" and "String_includes email' CHR ''.''"
  shows "String_includes (toLowerCase (trim email')) CHR ''@''
         \<and> \<not> length password < 8
         \<and> fst (mockApi_register env (trim name') (toLowerCase (trim email')) password w)
             \<noteq> Inl (Error ''Invalid email format'')
         \<and> fst (mockApi_register env (trim name') (toLowerCase (trim email')) password w)
             \<noteq> Inl (Error ''Password must be at least 8 characters'')
         \<and> fst (signUp env name' email' password w) \<noteq> Inl (Error ''Invalid email format'')
         \<and> fst (signUp env name' email' password w)
             \<noteq> Inl (Error ''Password must be at least 8 characters'')"
proof -
  have at: "String_includes (toLowerCase (trim email')) CHR ''@''"
    using assms(5) by (rule normalised_includes_at)
  show ?thesis
    using at assms(4) register_beyond_checks [OF at assms(4)] signUp_beyond_checks
    by simp
qed

theorem register_checks_unreachable_witness:
  "trim '' Asha '' \<noteq> [] \<and> trim '' Asha@Example.com '' \<noteq> [] \<and> ''correct horse'' \<noteq> []
   \<and> \<not> length ''correct horse'' < 8
   \<and> String_includes '' Asha@Example.com '' CHR ''@''
   \<and> String_includes '' Asha@Example.com '' CHR ''.''
   \<and> String_includes (toLowerCase (trim '' Asha@Example.com '')) CHR ''@''
   \<and> fst (mockApi_register example_env (trim '' Asha '')
            (toLowerCase (trim '' Asha@Example.com '')) ''correct horse'' first_start)
       \<noteq> Inl (Error ''Invalid email format'')
   \<and> fst (mockApi_register example_env (trim '' Asha '')
            (toLowerCase (trim '' Asha@Example.com '')) ''correct horse'' first_start)
       \<noteq> Inl (Error ''Password must be at least 8 characters'')
   \<and> fst (signUp example_env '' Asha '' '' Asha@Example.com '' ''correct horse'' first_start)
       \<noteq> Inl (Error ''Invalid email format'')
   \<and> fst (signUp example_env '' Asha '' '' Asha@Example.com '' ''correct horse'' first_start)
       \<noteq> Inl (Error ''Password must be at least 8 characters'')"
proof -
  have a: "trim '' Asha '' \<noteq> []" by (simp add: trim_def isWhiteSpace_def)
  have b: "trim '' Asha@Example.com '' \<noteq> []" by (simp add: trim_def isWhiteSpace_def)
  have c: "''correct horse'' \<noteq> []" by simp
  have d: "\<not> length ''correct horse'' < 8" by simp
  have e: "String_includes '' Asha@Example.com '' CHR ''@''" by (simp add: String_includes_def)
  have f: "String_includes '' Asha@Example.com '' CHR ''.''" by (simp add: String_includes_def)
  show ?thesis
    using a b c d e f
      register_checks_unreachable [OF a b c d e f, of example_env first_start]
    by simp
qed

lemma register_fresh:
  assumes "String_includes email' CHR ''@''" and "\<not> length password < 8"
    and "carried_out (Suc (Suc 0)) w"
    and "users_of (storage w ''users'') = Inr us"
    and "\<not> list_ex (\<lambda>u. email u = email') us"
  shows "mockApi_register env name' email' password w =
     (Inr \<lparr>id' = Number_toString (Date_now env), name = name', email = email',
           createdAt = Some (Date_toISOString env)\<rparr>,
      w\<lparr>faults := tl (tl (faults w)),
        storage := (storage w)(''users'' \<mapsto> JSON_stringify_users
          (us @ [\<lparr>id' = Number_toString (Date_now env), name = name', email = email',
                  createdAt = Some (Date_toISOString env)\<rparr>]))\<rparr>)"
proof -
  have g: "AsyncStorage_getItem ''users'' w
      = (Inr (storage w ''users''), w\<lparr>faults := tl (faults w)\<rparr>)"
    by (rule getItem_carried_out [OF assms(3)])
  have one: "carried_out (Suc 0) (w\<lparr>faults := tl (faults w)\<rparr>)"
    by (rule carried_out_drop [OF assms(3)])
  show ?thesis
    using assms(1,2,5)
    by (simp add: mockApi_register_def g assms(4) Let_def setItem_carried_out [OF one])
qed

lemma register_Inr:
  assumes "mockApi_register env name' email' password w = (Inr u, w')"
  shows "String_includes email' CHR ''@'' \<and> \<not> length password < 8
         \<and> carried_out (Suc (Suc 0)) w
         \<and> (\<exists>us. users_of (storage w ''users'') = Inr us
                \<and> \<not> list_ex (\<lambda>u. email u = email') us)"
proof -
  from assms have at: "String_includes email' CHR ''@''" and len: "\<not> length password < 8"
    by (auto simp: mockApi_register_def split: if_splits)
  from assms at len obtain x w1 where
    g: "AsyncStorage_getItem ''users'' w = (Inr x, w1)"
    by (auto simp: mockApi_register_def split: prod.splits sum.splits)
  from getItem_Inr [OF g] have c1: "carried_out (Suc 0) w" and x: "x = storage w ''users''"
    and w1: "w1 = w\<lparr>faults := tl (faults w)\<rparr>" by simp_all
  from assms at len g obtain us where us: "users_of x = Inr us"
    by (auto simp: mockApi_register_def split: sum.splits)
  from assms at len g us have fresh: "\<not> list_ex (\<lambda>u. email u = email') us"
    by (auto simp: mockApi_register_def split: if_splits)
  from assms at len g us fresh obtain y w2 where
    s: "AsyncStorage_setItem ''users''
          (JSON_stringify_users (us @ [\<lparr>id' = Number_toString (Date_now env), name = name',
             email = email', createdAt = Some (Date_toISOString env)\<rparr>])) w1 = (Inr y, w2)"
    by (auto simp: mockApi_register_def Let_def split: prod.splits sum.splits)
  from setItem_Inr [OF s] have c2: "carried_out (Suc 0) w1" by simp
  have "carried_out (Suc (Suc 0)) w"
    using c1 c2 w1 by (subst carried_out_Suc) simp
  with at len us x fresh show ?thesis by auto
qed

lemma signUp_fresh:
  assumes "trim name' \<noteq> []" and "trim email' \<noteq> []" and "\<not> length password < 8"
    and "String_includes email' CHR ''@''" and "String_includes email' CHR ''.''"
    and "carried_out (Suc (Suc (Suc 0))) w"
    and "users_of (storage w ''users'') = Inr us"
    and "\<not> list_ex (\<lambda>u. email u = toLowerCase (trim email')) us"
  shows "signUp env name' email' password w =
     (Inr (),
      w\<lparr>loading := False, error := None, faults := tl (tl (tl (faults w))),
        storage := (storage w)
          (''users'' \<mapsto> JSON_stringify_users (us @ [newUser_of env name' email']),
           ''currentUser'' \<mapsto> JSON_stringify_user (newUser_of env name' email')),
        user := Some (newUser_of env name' email'),
        alerts := (if Platform_OS env = ''web''
                   then alerts w @ [''Account created successfully!''] else alerts w)\<rparr>)"
proof -
  let ?w0 = "w\<lparr>loading := True, error := None\<rparr>"
  have pw: "password \<noteq> []" using assms(3) by auto
  have at: "String_includes (toLowerCase (trim email')) CHR ''@''"
    using assms(4) by (rule normalised_includes_at)
  have c3: "carried_out (Suc (Suc (Suc 0))) ?w0"
    using assms(6) by (simp add: carried_out_def)
  have c2: "carried_out (Suc (Suc 0)) ?w0"
    using c3 by (rule carried_out_less)
  have us: "users_of (storage ?w0 ''users'') = Inr us"
    using assms(7) by simp
  note reg = register_fresh [OF at assms(3) c2 us assms(8), of env "trim name'"]
  have c1: "carried_out (Suc 0) (?w0\<lparr>faults := tl (tl (faults ?w0)),
      storage := (storage ?w0)(''users'' \<mapsto> JSON_stringify_users
        (us @ [newUser_of env name' email']))\<rparr>)"
    using carried_out_drop [OF carried_out_drop [OF c3]]
    by (simp add: carried_out_def)
  note cur = setItem_carried_out [OF c1, of "''currentUser''"
      "JSON_stringify_user (newUser_of env name' email')"]
  show ?thesis
    using assms(1-5) pw cur
    by (simp add: signUp_def signUp_try_def Let_def reg [folded newUser_of_def])
qed

lemma signUp_Inr:
  assumes "fst (signUp env name' email' password w) = Inr ()"
  shows "trim name' \<noteq> [] \<and> trim email' \<noteq> [] \<and> \<not> length password < 8
         \<and> String_includes email' CHR ''@'' \<and> String_includes email' CHR ''.''
         \<and> carried_out (Suc (Suc (Suc 0))) w
         \<and> (\<exists>us. users_of (storage w ''users'') = Inr us
                \<and> \<not> list_ex (\<lambda>u. email u = toLowerCase (trim email')) us)"
proof -
  let ?w0 = "w\<lparr>loading := True, error := None\<rparr>"
  from assms obtain w' where t: "signUp_try env name' email' password w = (Inr (), w')"
    by (auto simp: signUp_def split: prod.splits sum.splits)
  from t have v: "trim name' \<noteq> []" "trim email' \<noteq> []" "\<not> length password < 8"
    "String_includes email' CHR ''@''" "String_includes email' CHR ''.''"
    by (auto simp: signUp_try_def Let_def split: if_splits)
  from t v obtain u w1 where
    r: "mockApi_register env (trim name') (toLowerCase (trim email')) password ?w0 = (Inr u, w1)"
    by (auto simp: signUp_try_def Let_def split: if_splits prod.splits sum.splits)
  from register_Inr [OF r] obtain us where
    c2: "carried_out (Suc (Suc 0)) ?w0" and us: "users_of (storage w ''users'') = Inr us"
    and fresh: "\<not> list_ex (\<lambda>u. email u = toLowerCase (trim email')) us"
    by auto
  have at: "String_includes (toLowerCase (trim email')) CHR ''@''"
    using v(4) by (rule normalised_includes_at)
  have us0: "users_of (storage ?w0 ''users'') = Inr us" using us by simp
  note reg = register_fresh [OF at v(3) c2 us0 fresh, of env "trim name'"]
  from r reg have w1: "w1 = ?w0\<lparr>faults := tl (tl (faults ?w0)),
      storage := (storage ?w0)(''users'' \<mapsto> JSON_stringify_users
        (us @ [u]))\<rparr>" and u: "u = \<lparr>id' = Number_toString (Date_now env), name = trim name',
          email = toLowerCase (trim email'), createdAt = Some (Date_toISOString env)\<rparr>"
    by auto
  from t v r obtain y w2 where
    s: "AsyncStorage_setItem ''currentUser'' (JSON_stringify_user u) w1 = (Inr y, w2)"
    by (auto simp: signUp_try_def Let_def split: if_splits prod.splits sum.splits)
  from setItem_Inr [OF s] have c1: "carried_out (Suc 0) w1" by simp
  have "carried_out (Suc (Suc (Suc 0))) w"
  proof -
    have a: "carried_out (Suc 0) (w\<lparr>faults := tl (tl (faults w))\<rparr>)"
      using c1 by (simp add: w1 carried_out_def)
    have b: "carried_out (Suc (Suc 0)) w"
      using c2 by (simp add: carried_out_def)
    have b1: "carried_out (Suc 0) w" using b by (rule carried_out_less)
    have b2: "carried_out (Suc 0) (w\<lparr>faults := tl (faults w)\<rparr>)"
      using b by (rule carried_out_drop)
    have "carried_out (Suc (Suc 0)) (w\<lparr>faults := tl (faults w)\<rparr>)"
      using a b2 by (subst carried_out_Suc) simp
    with b1 show ?thesis by (subst carried_out_Suc) simp
  qed
  with v us fresh show ?thesis by auto
qed

lemma signUp_conflict:
  assumes "trim name' \<noteq> []" and "trim email' \<noteq> []" and "\<not> length password < 8"
    and "String_includes email' CHR ''@''" and "String_includes email' CHR ''.''"
    and "carried_out (Suc 0) w"
    and "users_of (storage w ''users'') = Inr us"
    and "list_ex (\<lambda>u. email u = toLowerCase (trim email')) us"
  shows "signUp env name' email' password w =
     (Inl (Error ''User already exists with this email''),
      w\<lparr>loading := False, error := Some ''User already exists with this email'',
        faults := tl (faults w)\<rparr>)"
proof -
  let ?w0 = "w\<lparr>loading := True, error := None\<rparr>"
  have pw: "password \<noteq> []" using assms(3) by auto
  have at: "String_includes (toLowerCase (trim email')) CHR ''@''"
    using assms(4) by (rule normalised_includes_at)
  have c1: "carried_out (Suc 0) ?w0"
    using assms(6) by (simp add: carried_out_def)
  have g: "AsyncStorage_getItem ''users'' ?w0
      = (Inr (storage ?w0 ''users''), ?w0\<lparr>faults := tl (faults ?w0)\<rparr>)"
    by (rule getItem_carried_out [OF c1])
  have reg: "mockApi_register env (trim name') (toLowerCase (trim email')) password ?w0
      = (Inl (Error ''User already exists with this email''), ?w0\<lparr>faults := tl (faults ?w0)\<rparr>)"
    using at assms(3,7,8) by (simp add: mockApi_register_def g)
  show ?thesis
    using assms(1-5) pw
    by (simp add: signUp_def signUp_try_def Let_def reg error_message_def)
qed

lemma three_calls: "carried_out 3 w \<longleftrightarrow> carried_out (Suc (Suc (Suc 0))) w"
  by (simp add: numeral_3_eq_3)

lemma fresh_not_member:
  "\<not> list_ex (\<lambda>u. email u = e) us \<Longrightarrow> email x = e \<Longrightarrow> x \<notin> set us"
  by (auto simp: list_ex_iff)

lemma fresh_filter: "\<not> list_ex (\<lambda>u. email u = e) us \<Longrightarrow> filter (\<lambda>u. email u = e) us = []"
  by (auto simp: list_ex_iff filter_empty_conv)

lemma newUser_of_email: "email (newUser_of env name' email') = toLowerCase (trim email')"
  by (simp add: newUser_of_def)

lemma newUser_of_name: "name (newUser_of env name' email') = trim name'"
  by (simp add: newUser_of_def)

lemma example_newUser: "newUser_of example_env '' Asha '' '' Asha@Example.com '' = example_user"
  by (simp add: newUser_of_def example_env_def example_user_def trim_def toLowerCase_def
      lower_char_def isWhiteSpace_def Number_toString.simps char_of_eq_iff)

lemma example_valid:
  "trim '' Asha '' \<noteq> []" "trim '' Asha@Example.com '' \<noteq> []"
  "String_includes '' Asha@Example.com '' CHR ''@''"
  "String_includes '' Asha@Example.com '' CHR ''.''"
  by (simp_all add: trim_def isWhiteSpace_def String_includes_def)

lemma example_signUp:
  "signUp example_env '' Asha '' '' Asha@Example.com '' ''correct horse'' first_start =
     (Inr (),
      first_start\<lparr>storage := [''users'' \<mapsto> JSON_stringify_users [example_user],
                                ''currentUser'' \<mapsto> JSON_stringify_user example_user],
                   user := Some example_user\<rparr>)"
proof -
  have l: "\<not> length ''correct horse'' < 8" by simp
  have c: "carried_out (Suc (Suc (Suc 0))) first_start"
    by (simp add: carried_out_def first_start_def)
  have u: "users_of (storage first_start ''users'') = Inr []"
    by (simp add: users_of_def first_start_def)
  have f: "\<not> list_ex (\<lambda>u. email u = toLowerCase (trim '' Asha@Example.com '')) []" by simp
  have e: "Platform_OS example_env \<noteq> ''web''" by (simp add: example_env_def)
  show ?thesis
    using signUp_fresh [OF example_valid(1,2) l example_valid(3,4) c u f, of example_env] e
    by (simp add: example_newUser first_start_def)
qed

text \<open>
  C3. Let the name and the email be non-empty after trimming, the password have at least 8
  characters and the email an at sign and a full stop; let the slot \<^verbatim>\<open>users\<close> be empty
  or hold the list \<open>us\<close>, in which no record has the trimmed, lower-cased email; and let
  the storage carry out the three calls \<^verbatim>\<open>signUp\<close> makes. Then \<^verbatim>\<open>signUp\<close> resolves,
  the session holds the new record, and the list read back from the slot \<^verbatim>\<open>users\<close> is
  \<open>us\<close> with the new record at its end, where that record, and that email, occur exactly
  once.
\<close>

theorem signUp_registers:
  assumes "trim name' \<noteq> []" and "trim email' \<noteq> []" and "8 \<le> length password"
    and "String_includes email' CHR ''@''" and "String_includes email' CHR ''.''"
    and "carried_out 3 w"
    and "users_of (storage w ''users'') = Inr us"
    and "\<not> list_ex (\<lambda>u. email u = toLowerCase (trim email')) us"
  shows "fst (signUp env name' email' password w) = Inr ()
         \<and> user (snd (signUp env name' email' password w)) = Some (newUser_of env name' email')
         \<and> users_of (storage (snd (signUp env name' email' password w)) ''users'')
             = Inr (us @ [newUser_of env name' email'])
         \<and> count_list (us @ [newUser_of env name' email']) (newUser_of env name' email') = 1
         \<and> length (filter (\<lambda>u. email u = toLowerCase (trim email'))
                     (us @ [newUser_of env name' email'])) = 1"
proof -
  have len: "\<not> length password < 8" using assms(3) by simp
  have c3: "carried_out (Suc (Suc (Suc 0))) w" using assms(6) by (simp add: three_calls)
  note run = signUp_fresh [OF assms(1,2) len assms(4,5) c3 assms(7,8), of env]
  have "newUser_of env name' email' \<notin> set us"
    using assms(8) newUser_of_email by (rule fresh_not_member)
  then have cnt: "count_list us (newUser_of env name' email') = 0"
    by simp
  show ?thesis
    by (simp add: run users_of_stringify cnt fresh_filter [OF assms(8)] newUser_of_email)
qed

theorem signUp_registers_witness:
  "trim '' Asha '' \<noteq> [] \<and> trim '' Asha@Example.com '' \<noteq> []
   \<and> 8 \<le> length ''correct horse''
   \<and> String_includes '' Asha@Example.com '' CHR ''@''
   \<and> String_includes '' Asha@Example.com '' CHR ''.''
   \<and> carried_out 3 first_start
   \<and> users_of (storage first_start ''users'') = Inr []
   \<and> \<not> list_ex (\<lambda>u. email u = toLowerCase (trim '' Asha@Example.com '')) []
   \<and> fst (signUp example_env '' Asha '' '' Asha@Example.com '' ''correct horse'' first_start)
       = Inr ()
   \<and> user (snd (signUp example_env '' Asha '' '' Asha@Example.com '' ''correct horse''
         first_start)) = Some example_user
   \<and> users_of (storage (snd (signUp example_env '' Asha '' '' Asha@Example.com ''
         ''correct horse'' first_start)) ''users'') = Inr [example_user]
   \<and> count_list [example_user] example_user = 1"
proof -
  have l: "8 \<le> length ''correct horse''" by simp
  have c: "carried_out 3 first_start" by (simp add: carried_out_def first_start_def)
  have u: "users_of (storage first_start ''users'') = Inr []"
    by (simp add: users_of_def first_start_def)
  have f: "\<not> list_ex (\<lambda>u. email u = toLowerCase (trim '' Asha@Example.com '')) []" by simp
  show ?thesis
    using example_valid l c u
      signUp_registers [OF example_valid(1,2) l example_valid(3,4) c u f, of example_env]
    by (simp add: example_newUser)
qed

text \<open>
  C9. After a \<^verbatim>\<open>signUp\<close> that resolved, there is a record \<open>u\<close> such that the slot
  \<^verbatim>\<open>currentUser\<close> holds the text of \<open>u\<close> (and reads back as \<open>u\<close>), the slot
  \<^verbatim>\<open>users\<close> reads back as the list from before with \<open>u\<close> as its last element, the
  name of \<open>u\<close> is the trimmed name given and its email the trimmed, lower-cased email
  given.
\<close>

theorem signUp_slots_agree:
  assumes "fst (signUp env name' email' password w) = Inr ()"
  shows "\<exists>us u s.
           users_of (storage w ''users'') = Inr us
         \<and> users_of (storage (snd (signUp env name' email' password w)) ''users'') = Inr (us @ [u])
         \<and> last (us @ [u]) = u
         \<and> storage (snd (signUp env name' email' password w)) ''currentUser'' = Some s
         \<and> s = JSON_stringify_user u
         \<and> JSON_parse_user s = Inr u
         \<and> name u = trim name'
         \<and> email u = toLowerCase (trim email')"
proof -
  from signUp_Inr [OF assms] obtain us where
    v: "trim name' \<noteq> []" "trim email' \<noteq> []" "\<not> length password < 8"
      "String_includes email' CHR ''@''" "String_includes email' CHR ''.''"
      "carried_out (Suc (Suc (Suc 0))) w"
    and us: "users_of (storage w ''users'') = Inr us"
    and fresh: "\<not> list_ex (\<lambda>u. email u = toLowerCase (trim email')) us"
    by blast
  note run = signUp_fresh [OF v us fresh, of env]
  let ?u = "newUser_of env name' email'"
  have "users_of (storage w ''users'') = Inr us
      \<and> users_of (storage (snd (signUp env name' email' password w)) ''users'') = Inr (us @ [?u])
      \<and> last (us @ [?u]) = ?u
      \<and> storage (snd (signUp env name' email' password w)) ''currentUser''
          = Some (JSON_stringify_user ?u)
      \<and> JSON_stringify_user ?u = JSON_stringify_user ?u
      \<and> JSON_parse_user (JSON_stringify_user ?u) = Inr ?u
      \<and> name ?u = trim name'
      \<and> email ?u = toLowerCase (trim email')"
    by (simp add: run us users_of_stringify JSON_parse_stringify_user newUser_of_email
        newUser_of_name)
  then show ?thesis by blast
qed

theorem signUp_slots_agree_witness:
  "fst (signUp example_env '' Asha '' '' Asha@Example.com '' ''correct horse'' first_start)
     = Inr ()
   \<and> (\<exists>us u s.
         users_of (storage first_start ''users'') = Inr us
       \<and> users_of (storage (snd (signUp example_env '' Asha '' '' Asha@Example.com ''
            ''correct horse'' first_start)) ''users'') = Inr (us @ [u])
       \<and> last (us @ [u]) = u
       \<and> storage (snd (signUp example_env '' Asha '' '' Asha@Example.com ''
            ''correct horse'' first_start)) ''currentUser'' = Some s
       \<and> s = JSON_stringify_user u
       \<and> JSON_parse_user s = Inr u
       \<and> name u = trim '' Asha ''
       \<and> email u = toLowerCase (trim '' Asha@Example.com ''))"
proof -
  have h: "fst (signUp example_env '' Asha '' '' Asha@Example.com '' ''correct horse''
      first_start) = Inr ()"
    by (simp add: example_signUp)
  show ?thesis
    using h signUp_slots_agree [OF h] by blast
qed

text \<open>
  C4. After a \<^verbatim>\<open>signUp\<close> that resolved, a second \<^verbatim>\<open>signUp\<close> with the same email
  (any valid name and password, any clock) whose read of \<^verbatim>\<open>users\<close> is carried out
  rejects with \<^verbatim>\<open>User already exists with this email\<close>, and the list in the slot
  \<^verbatim>\<open>users\<close> after both calls is the list from before the first with one record added.
\<close>

theorem signUp_same_email_twice:
  assumes "fst (signUp env name' email' password w) = Inr ()"
    and "trim name2 \<noteq> []" and "8 \<le> length password2"
    and "carried_out 1 (snd (signUp env name' email' password w))"
  shows "fst (signUp env2 name2 email' password2 (snd (signUp env name' email' password w)))
           = Inl (Error ''User already exists with this email'')
         \<and> (\<exists>us u.
               users_of (storage w ''users'') = Inr us
             \<and> users_of (storage (snd (signUp env2 name2 email' password2
                   (snd (signUp env name' email' password w)))) ''users'') = Inr (us @ [u])
             \<and> length (us @ [u]) = length us + 1)"
proof -
  from signUp_Inr [OF assms(1)] obtain us where
    v: "trim name' \<noteq> []" "trim email' \<noteq> []" "\<not> length password < 8"
      "String_includes email' CHR ''@''" "String_includes email' CHR ''.''"
      "carried_out (Suc (Suc (Suc 0))) w"
    and us: "users_of (storage w ''users'') = Inr us"
    and fresh: "\<not> list_ex (\<lambda>u. email u = toLowerCase (trim email')) us"
    by blast
  note run = signUp_fresh [OF v us fresh, of env]
  let ?w1 = "snd (signUp env name' email' password w)"
  let ?u = "newUser_of env name' email'"
  have us1: "users_of (storage ?w1 ''users'') = Inr (us @ [?u])"
    by (simp add: run users_of_stringify)
  have ex: "list_ex (\<lambda>u. email u = toLowerCase (trim email')) (us @ [?u])"
    by (simp add: newUser_of_email)
  have len2: "\<not> length password2 < 8" using assms(3) by simp
  have c1: "carried_out (Suc 0) ?w1" using assms(4) by simp
  note again = signUp_conflict [OF assms(2) v(2) len2 v(4,5) c1 us1 ex, of env2]
  have "users_of (storage (snd (signUp env2 name2 email' password2 ?w1)) ''users'')
      = Inr (us @ [?u])"
    by (simp add: again us1)
  with us again show ?thesis by simp
qed

theorem signUp_same_email_twice_witness:
  "fst (signUp example_env '' Asha '' '' Asha@Example.com '' ''correct horse'' first_start)
     = Inr ()
   \<and> trim ''Asha B'' \<noteq> [] \<and> 8 \<le> length ''another password''
   \<and> carried_out 1
        (snd (signUp example_env '' Asha '' '' Asha@Example.com '' ''correct horse'' first_start))
   \<and> fst (signUp example_env ''Asha B'' '' Asha@Example.com '' ''another password''
        (snd (signUp example_env '' Asha '' '' Asha@Example.com '' ''correct horse''
           first_start)))
       = Inl (Error ''User already exists with this email'')
   \<and> (\<exists>us u.
         users_of (storage first_start ''users'') = Inr us
       \<and> users_of (storage (snd (signUp example_env ''Asha B'' '' Asha@Example.com ''
            ''another password''
            (snd (signUp example_env '' Asha '' '' Asha@Example.com '' ''correct horse''
               first_start)))) ''users'') = Inr (us @ [u])
       \<and> length (us @ [u]) = length us + 1)"
proof -
  have h: "fst (signUp example_env '' Asha '' '' Asha@Example.com '' ''correct horse''
      first_start) = Inr ()"
    by (simp add: example_signUp)
  have n: "trim ''Asha B'' \<noteq> []" by (simp add: trim_def isWhiteSpace_def)
  have l: "8 \<le> length ''another password''" by simp
  have c: "carried_out 1
      (snd (signUp example_env '' Asha '' '' Asha@Example.com '' ''correct horse'' first_start))"
    by (simp add: example_signUp carried_out_def, simp add: first_start_def)
  show ?thesis
    using h n l c signUp_same_email_twice [OF h n l c, of example_env] by blast
qed

section \<open>Signing in\<close>

lemma signIn_missing:
  assumes "trim email' \<noteq> []" and "password \<noteq> []"
    and "carried_out (Suc 0) w"
    and "users_of (storage w ''users'') = Inr us"
    and "find (\<lambda>u. email u = toLowerCase (trim email')) us = None"
  shows "signIn email' password w =
     (Inl (Error ''Invalid email or password''),
      w\<lparr>loading := False, error := Some ''Invalid email or password'',
        faults := tl (faults w)\<rparr>)"
proof -
  let ?w0 = "w\<lparr>loading := True, error := None\<rparr>"
  have c1: "carried_out (Suc 0) ?w0"
    using assms(3) by (simp add: carried_out_def)
  have g: "AsyncStorage_getItem ''users'' ?w0
      = (Inr (storage ?w0 ''users''), ?w0\<lparr>faults := tl (faults ?w0)\<rparr>)"
    by (rule getItem_carried_out [OF c1])
  show ?thesis
    using assms(1,2,4,5)
    by (simp add: signIn_def signIn_try_def Let_def mockApi_login_def g error_message_def)
qed

lemma signIn_found:
  assumes "trim email' \<noteq> []" and "password \<noteq> []"
    and "carried_out (Suc (Suc 0)) w"
    and "users_of (storage w ''users'') = Inr us"
    and "find (\<lambda>u. email u = toLowerCase (trim email')) us = Some u"
  shows "signIn email' password w =
     (Inr (),
      w\<lparr>loading := False, error := None, faults := tl (tl (faults w)),
        storage := (storage w)(''currentUser'' \<mapsto> JSON_stringify_user u),
        user := Some u\<rparr>)"
proof -
  let ?w0 = "w\<lparr>loading := True, error := None\<rparr>"
  have c2: "carried_out (Suc (Suc 0)) ?w0"
    using assms(3) by (simp add: carried_out_def)
  have g: "AsyncStorage_getItem ''users'' ?w0
      = (Inr (storage ?w0 ''users''), ?w0\<lparr>faults := tl (faults ?w0)\<rparr>)"
    by (rule getItem_carried_out [OF c2])
  have c1: "carried_out (Suc 0) (?w0\<lparr>faults := tl (faults ?w0)\<rparr>)"
    by (rule carried_out_drop [OF c2])
  note cur = setItem_carried_out [OF c1, of "''currentUser''" "JSON_stringify_user u"]
  show ?thesis
    using assms(1,2,4,5) cur
    by (simp add: signIn_def signIn_try_def Let_def mockApi_login_def g)
qed

lemma example_lower: "toLowerCase (trim '' Asha@Example.com '') = ''asha@example.com''"
  by (simp add: trim_def toLowerCase_def lower_char_def isWhiteSpace_def char_of_eq_iff)

lemma example_lower2: "toLowerCase (trim ''nobody@example.com'') = ''nobody@example.com''"
  by (simp add: trim_def toLowerCase_def lower_char_def isWhiteSpace_def char_of_eq_iff)

text \<open>
  C5, as the code has it. Let the email be non-empty after trimming and the password
  non-empty, the slot \<^verbatim>\<open>users\<close> be empty or hold the list \<open>us\<close>, and the storage
  carry out the calls. If no record of \<open>us\<close> has the trimmed, lower-cased email,
  \<^verbatim>\<open>signIn\<close> rejects with \<^verbatim>\<open>Invalid email or password\<close> and the user of the session
  is the one from before. Otherwise it resolves, whatever the password, and the session
  holds the first record of \<open>us\<close> with that email.
\<close>

theorem signIn_by_email:
  assumes "trim email' \<noteq> []" and "password \<noteq> []"
    and "carried_out 2 w"
    and "users_of (storage w ''users'') = Inr us"
  shows "case find (\<lambda>u. email u = toLowerCase (trim email')) us of
           None \<Rightarrow>
             fst (signIn email' password w) = Inl (Error ''Invalid email or password'')
             \<and> user (snd (signIn email' password w)) = user w
         | Some u \<Rightarrow>
             fst (signIn email' password w) = Inr ()
             \<and> user (snd (signIn email' password w)) = Some u"
proof -
  have c2: "carried_out (Suc (Suc 0)) w" using assms(3) by (simp add: numeral_2_eq_2)
  have c1: "carried_out (Suc 0) w" using c2 by (rule carried_out_less)
  show ?thesis
  proof (cases "find (\<lambda>u. email u = toLowerCase (trim email')) us")
    case None
    then show ?thesis
      by (simp add: signIn_missing [OF assms(1,2) c1 assms(4) None])
  next
    case (Some u)
    then show ?thesis
      by (simp add: signIn_found [OF assms(1,2) c2 assms(4) Some])
  qed
qed

theorem signIn_by_email_witness:
  "trim '' Asha@Example.com '' \<noteq> [] \<and> trim ''nobody@example.com'' \<noteq> []
   \<and> ''x'' \<noteq> []
   \<and> carried_out 2 (signed_in\<lparr>user := None\<rparr>)
   \<and> users_of (storage (signed_in\<lparr>user := None\<rparr>) ''users'') = Inr [example_user]
   \<and> find (\<lambda>u. email u = toLowerCase (trim '' Asha@Example.com '')) [example_user]
       = Some example_user
   \<and> fst (signIn '' Asha@Example.com '' ''x'' (signed_in\<lparr>user := None\<rparr>)) = Inr ()
   \<and> user (snd (signIn '' Asha@Example.com '' ''x'' (signed_in\<lparr>user := None\<rparr>)))
       = Some example_user
   \<and> find (\<lambda>u. email u = toLowerCase (trim ''nobody@example.com'')) [example_user] = None
   \<and> fst (signIn ''nobody@example.com'' ''x'' (signed_in\<lparr>user := None\<rparr>))
       = Inl (Error ''Invalid email or password'')
   \<and> user (snd (signIn ''nobody@example.com'' ''x'' (signed_in\<lparr>user := None\<rparr>))) = None"
proof -
  have a: "trim '' Asha@Example.com '' \<noteq> []" by (simp add: trim_def isWhiteSpace_def)
  have b: "trim ''nobody@example.com'' \<noteq> []" by (simp add: trim_def isWhiteSpace_def)
  have p: "''x'' \<noteq> []" by simp
  have c: "carried_out 2 (signed_in\<lparr>user := None\<rparr>)"
    by (simp add: carried_out_def signed_in_def)
  have u: "users_of (storage (signed_in\<lparr>user := None\<rparr>) ''users'') = Inr [example_user]"
    by (simp add: signed_in_def users_of_stringify)
  have f1: "find (\<lambda>u. email u = toLowerCase (trim '' Asha@Example.com '')) [example_user]
      = Some example_user"
    by (simp add: example_lower example_user_def)
  have f2: "find (\<lambda>u. email u = toLowerCase (trim ''nobody@example.com'')) [example_user]
      = None"
    by (simp add: example_lower2 example_user_def)
  show ?thesis
    using a b p c u f1 f2 signIn_by_email [OF a p c u] signIn_by_email [OF b p c u]
    by simp
qed

text \<open>
  For an email that is not empty but blank, the claim fails as it was stated: with nothing
  stored no record has a matching email, and still the error is not
  \<^verbatim>\<open>Invalid email or password\<close> but that of the check before the lookup.
\<close>

theorem signIn_blank_email_counterexample:
  "''  '' \<noteq> [] \<and> ''secret'' \<noteq> []
   \<and> users_of (storage first_start ''users'') = Inr []
   \<and> fst (signIn ''  '' ''secret'' first_start) = Inl (Error ''Email and password are required'')
   \<and> fst (signIn ''  '' ''secret'' first_start) \<noteq> Inl (Error ''Invalid email or password'')"
  by (simp add: signIn_def signIn_try_def Let_def trim_def isWhiteSpace_def users_of_def
      first_start_def)

section \<open>Restoring the session\<close>

lemma checkExistingSession_stored:
  assumes "storage w ''currentUser'' = Some (JSON_stringify_user u)" and "carried_out 1 w"
  shows "checkExistingSession w = (Inr (), w\<lparr>faults := tl (faults w), user := Some u, loading := False\<rparr>)"
proof -
  have one: "carried_out (Suc 0) (w\<lparr>loading := True\<rparr>)"
    using assms(2) by (simp add: carried_out_def)
  show ?thesis
    using getItem_carried_out [OF one, of "''currentUser''"]
    by (simp add: checkExistingSession_def checkExistingSession_try_def assms(1)
        stringify_user_nonempty JSON_parse_stringify_user)
qed

text \<open>
  Whenever one of \<^verbatim>\<open>signUp\<close>, \<^verbatim>\<open>signIn\<close> and \<^verbatim>\<open>updateUser\<close> resolves, the slot
  \<^verbatim>\<open>currentUser\<close> holds the text of the record the session holds.
\<close>

lemma signUp_persists:
  assumes "fst (signUp env name' email' password w) = Inr ()"
  shows "\<exists>u. user (snd (signUp env name' email' password w)) = Some u
             \<and> storage (snd (signUp env name' email' password w)) ''currentUser''
                 = Some (JSON_stringify_user u)"
proof -
  from signUp_Inr [OF assms] obtain us where
    v: "trim name' \<noteq> []" "trim email' \<noteq> []" "\<not> length password < 8"
      "String_includes email' CHR ''@''" "String_includes email' CHR ''.''"
      "carried_out (Suc (Suc (Suc 0))) w"
    and us: "users_of (storage w ''users'') = Inr us"
    and fresh: "\<not> list_ex (\<lambda>u. email u = toLowerCase (trim email')) us"
    by blast
  show ?thesis
    by (simp add: signUp_fresh [OF v us fresh, of env])
qed

lemma signIn_persists:
  assumes "fst (signIn email' password w) = Inr ()"
  shows "\<exists>u. user (snd (signIn email' password w)) = Some u
             \<and> storage (snd (signIn email' password w)) ''currentUser''
                 = Some (JSON_stringify_user u)"
proof -
  from assms obtain w' where t: "signIn_try email' password w = (Inr (), w')"
    by (auto simp: signIn_def split: prod.splits sum.splits)
  then obtain u w1 y w2 where
    s: "AsyncStorage_setItem ''currentUser'' (JSON_stringify_user u) w1 = (Inr y, w2)"
    and w': "w' = w2\<lparr>user := Some u\<rparr>"
    by (auto simp: signIn_try_def Let_def split: if_splits prod.splits sum.splits)
  from setItem_Inr [OF s] have "storage w2 ''currentUser'' = Some (JSON_stringify_user u)"
    by simp
  with t w' show ?thesis
    by (simp add: signIn_def)
qed

lemma updateUser_persists:
  assumes "fst (updateUser userData w) = Inr ()"
  shows "\<exists>u. user (snd (updateUser userData w)) = Some u
             \<and> storage (snd (updateUser userData w)) ''currentUser''
                 = Some (JSON_stringify_user u)"
proof -
  from assms obtain w' where t: "updateUser_try userData w = (Inr (), w')"
    by (auto simp: updateUser_def split: prod.splits sum.splits)
  then obtain u0 where u0: "user w = Some u0"
    by (auto simp: updateUser_try_def split: option.splits)
  let ?u = "spread u0 userData"
  from t u0 obtain y w1 x w2 z w3 where
    s1: "AsyncStorage_setItem ''currentUser'' (JSON_stringify_user ?u) w = (Inr y, w1)"
    and g: "AsyncStorage_getItem ''users'' w1 = (Inr x, w2)"
    and w3: "w3 = w2 \<or> (\<exists>v. AsyncStorage_setItem ''users'' v w2 = (Inr z, w3))"
    and w': "w' = w3\<lparr>user := Some ?u\<rparr>"
    by (auto simp: updateUser_try_def Let_def
        split: if_splits prod.splits sum.splits option.splits)
  from setItem_Inr [OF s1] have a: "storage w1 ''currentUser'' = Some (JSON_stringify_user ?u)"
    by simp
  from getItem_Inr [OF g] have b: "storage w2 = storage w1" by simp
  from w3 have c: "storage w3 ''currentUser'' = storage w2 ''currentUser''"
    by (auto dest!: setItem_Inr)
  from t w' a b c show ?thesis
    by (simp add: updateUser_def)
qed

text \<open>
  C7. A user record written to the slot \<^verbatim>\<open>currentUser\<close> by \<^verbatim>\<open>JSON.stringify\<close> is
  read back unchanged: \<^verbatim>\<open>JSON.parse\<close> of the text is the record, and restoring the
  session from a storage that holds the text (and carries out the read) puts that record
  in the session.
\<close>

theorem restore_reads_back:
  assumes "storage w ''currentUser'' = Some (JSON_stringify_user u)" and "carried_out 1 w"
  shows "JSON_parse_user (JSON_stringify_user u) = Inr u
         \<and> fst (checkExistingSession w) = Inr ()
         \<and> user (snd (checkExistingSession w)) = Some u"
  using assms by (simp add: checkExistingSession_stored JSON_parse_stringify_user)

theorem restore_reads_back_witness:
  "storage (signed_in\<lparr>user := None\<rparr>) ''currentUser'' = Some (JSON_stringify_user example_user)
   \<and> carried_out 1 (signed_in\<lparr>user := None\<rparr>)
   \<and> JSON_parse_user (JSON_stringify_user example_user) = Inr example_user
   \<and> fst (checkExistingSession (signed_in\<lparr>user := None\<rparr>)) = Inr ()
   \<and> user (snd (checkExistingSession (signed_in\<lparr>user := None\<rparr>))) = Some example_user"
proof -
  have a: "storage (signed_in\<lparr>user := None\<rparr>) ''currentUser''
      = Some (JSON_stringify_user example_user)"
    by (simp add: signed_in_def)
  have b: "carried_out 1 (signed_in\<lparr>user := None\<rparr>)"
    by (simp add: signed_in_def carried_out_def)
  show ?thesis
    using a b restore_reads_back [OF a b] by simp
qed

end
